theory Spec2Isabelle
  imports Main "HOL-Library.Word" "HOL-Library.Multiset" "HOL-Library.List_Lexorder"
    "HOL-Library.Char_ord"
begin

section \<open>Ordered maps\<close>

text \<open>
  The graph classes keep their nodes and edges in \<^verbatim>\<open>std::map\<close>, whose iteration order is
  the order of the keys. Such a map is modelled as an association list kept in ascending key
  order; lookup, assignment (\<^verbatim>\<open>m[k] = v\<close>) and \<^verbatim>\<open>erase\<close> walk the list the way a search
  in the ordered container does.
\<close>

fun smap_find :: "'k::linorder \<Rightarrow> ('k \<times> 'v) list \<Rightarrow> 'v option" where
  "smap_find k [] = None"
| "smap_find k ((k', v) # m) =
     (if k = k' then Some v else if k < k' then None else smap_find k m)"

fun smap_put :: "'k::linorder \<Rightarrow> 'v \<Rightarrow> ('k \<times> 'v) list \<Rightarrow> ('k \<times> 'v) list" where
  "smap_put k v [] = [(k, v)]"
| "smap_put k v ((k', v') # m) =
     (if k = k' then (k, v) # m
      else if k < k' then (k, v) # (k', v') # m
      else (k', v') # smap_put k v m)"

fun smap_erase :: "'k::linorder \<Rightarrow> ('k \<times> 'v) list \<Rightarrow> ('k \<times> 'v) list" where
  "smap_erase k [] = []"
| "smap_erase k ((k', v) # m) =
     (if k = k' then m else if k < k' then (k', v) # m else (k', v) # smap_erase k m)"

definition smap_keys :: "('k \<times> 'v) list \<Rightarrow> 'k list" where
  "smap_keys m = map fst m"

definition smap_ok :: "('k::linorder \<times> 'v) list \<Rightarrow> bool" where
  "smap_ok m = sorted_wrt (<) (map fst m)"

section \<open>Compute graph: data model\<close>

text \<open>\<^verbatim>\<open>ComputeGraphBase.h\<close>: the three enumerations, in declaration order.\<close>

datatype ComputeNodeKind =
    Constant | Variable | Parameter
  | BinaryOp | UnaryOp | CompareOp
  | Load | Store | ArrayAccess | MemberAccess
  | Phi | Select | LoopInduction | Loop | Branch
  | Call | IntrinsicCall
  | Cast | Return | UnknownKind

datatype ComputeEdgeKind = DataFlow | Control | Memory | CallEdge | ReturnEdge | LoopCarried

datatype OpCode =
    Add | Sub | Mul | Div | Mod
  | And | Or | Xor | Shl | Shr
  | Neg | Not | BitNot
  | Lt | Gt | Le | Ge | Eq | Ne
  | Assign | UnknownOp

type_synonym NodeId = "64 word"
type_synonym EdgeId = "64 word"

text \<open>An AST statement is known to the graph only through its address.\<close>

type_synonym StmtPtr = nat

text \<open>
  \<^verbatim>\<open>class ComputeNode\<close> (\<^verbatim>\<open>ComputeGraph.h\<close>). The fields the graph operations below read
  or write are kept; the data type, the constant value and the branch context play no part
  in them.
\<close>

record ComputeNode =
  kind :: ComputeNodeKind
  node_id :: NodeId
  name :: string
  astStmt :: "StmtPtr option"
  opCode :: OpCode
  properties :: "string \<rightharpoonup> string"
  inputNodes :: "NodeId list"
  outputNodes :: "NodeId list"
  loopDepth :: int
  loopContextId :: NodeId
  sourceLine :: int

record ComputeEdge =
  edge_id :: EdgeId
  edge_kind :: ComputeEdgeKind
  sourceId :: NodeId
  targetId :: NodeId
  label :: string

text \<open>
  \<^verbatim>\<open>class ComputeGraph\<close>. \<^verbatim>\<open>nodes\<close> and \<^verbatim>\<open>edges\<close> are iterated in key order by the code,
  so they are ordered maps; the adjacency lists and the two indexes are only ever looked up.
\<close>

record ComputeGraph =
  graph_name :: string
  nextNodeId :: NodeId
  nextEdgeId :: EdgeId
  nodes :: "(NodeId \<times> ComputeNode) list"
  edges :: "(EdgeId \<times> ComputeEdge) list"
  stmtToNode :: "StmtPtr \<rightharpoonup> NodeId"
  nameToNode :: "string \<rightharpoonup> NodeId"
  inEdges :: "NodeId \<rightharpoonup> EdgeId list"
  outEdges :: "NodeId \<rightharpoonup> EdgeId list"
  graph_properties :: "string \<rightharpoonup> string"

text \<open>The constructors: \<^verbatim>\<open>nextNodeId = 1\<close> (``0 is the invalid ID''), \<^verbatim>\<open>nextEdgeId = 0\<close>.\<close>

definition new_ComputeNode :: "ComputeNodeKind \<Rightarrow> NodeId \<Rightarrow> ComputeNode" where
  "new_ComputeNode k i =
     \<lparr> kind = k, node_id = i, name = [], astStmt = None, opCode = UnknownOp,
       properties = Map.empty, inputNodes = [], outputNodes = [],
       loopDepth = 0, loopContextId = 0, sourceLine = 0 \<rparr>"

definition new_ComputeEdge ::
  "EdgeId \<Rightarrow> ComputeEdgeKind \<Rightarrow> NodeId \<Rightarrow> NodeId \<Rightarrow> ComputeEdge" where
  "new_ComputeEdge i k src tgt =
     \<lparr> edge_id = i, edge_kind = k, sourceId = src, targetId = tgt, label = [] \<rparr>"

definition new_ComputeGraph :: "string \<Rightarrow> ComputeGraph" where
  "new_ComputeGraph n =
     \<lparr> graph_name = n, nextNodeId = 1, nextEdgeId = 0, nodes = [], edges = [],
       stmtToNode = Map.empty, nameToNode = Map.empty,
       inEdges = Map.empty, outEdges = Map.empty, graph_properties = Map.empty \<rparr>"

section \<open>Compute graph: operations\<close>

text \<open>\<^verbatim>\<open>CreateNode\<close>: the node takes \<^verbatim>\<open>nextNodeId++\<close> (unsigned 64-bit, so the increment wraps).\<close>

definition CreateNode :: "ComputeNodeKind \<Rightarrow> ComputeGraph \<Rightarrow> ComputeNode \<times> ComputeGraph" where
  "CreateNode k g =
     (let node = new_ComputeNode k (nextNodeId g)
      in (node, g\<lparr> nextNodeId := nextNodeId g + 1,
                   nodes := smap_put (node_id node) node (nodes g) \<rparr>))"

definition GetNode :: "ComputeGraph \<Rightarrow> NodeId \<Rightarrow> ComputeNode option" where
  "GetNode g i = smap_find i (nodes g)"

definition GetEdge :: "ComputeGraph \<Rightarrow> EdgeId \<Rightarrow> ComputeEdge option" where
  "GetEdge g i = smap_find i (edges g)"

text \<open>\<^verbatim>\<open>m[k].push_back(x)\<close> on a map of vectors: a missing key starts from the empty vector.\<close>

definition push_at :: "('k \<rightharpoonup> 'a list) \<Rightarrow> 'k \<Rightarrow> 'a \<Rightarrow> ('k \<rightharpoonup> 'a list)" where
  "push_at m k x = m(k \<mapsto> (case m k of None \<Rightarrow> [] | Some xs \<Rightarrow> xs) @ [x])"

definition UpdateAdjacencyLists :: "ComputeEdge \<Rightarrow> ComputeGraph \<Rightarrow> ComputeGraph" where
  "UpdateAdjacencyLists e g =
     g\<lparr> outEdges := push_at (outEdges g) (sourceId e) (edge_id e),
        inEdges := push_at (inEdges g) (targetId e) (edge_id e) \<rparr>"

text \<open>
  A node is held through a shared pointer, so \<^verbatim>\<open>srcNode->outputNodes.push_back(tgt)\<close> changes
  the node stored in the map.
\<close>

definition push_output :: "NodeId \<Rightarrow> NodeId \<Rightarrow> ComputeGraph \<Rightarrow> ComputeGraph" where
  "push_output src tgt g =
     (case GetNode g src of
        None \<Rightarrow> g
      | Some n \<Rightarrow> g\<lparr> nodes := smap_put src (n\<lparr> outputNodes := outputNodes n @ [tgt] \<rparr>) (nodes g) \<rparr>)"

definition push_input :: "NodeId \<Rightarrow> NodeId \<Rightarrow> ComputeGraph \<Rightarrow> ComputeGraph" where
  "push_input src tgt g =
     (case GetNode g tgt of
        None \<Rightarrow> g
      | Some n \<Rightarrow> g\<lparr> nodes := smap_put tgt (n\<lparr> inputNodes := inputNodes n @ [src] \<rparr>) (nodes g) \<rparr>)"

definition AddEdge ::
  "NodeId \<Rightarrow> NodeId \<Rightarrow> ComputeEdgeKind \<Rightarrow> string \<Rightarrow> ComputeGraph \<Rightarrow> ComputeEdge \<times> ComputeGraph" where
  "AddEdge src tgt k varName g =
     (let e = (new_ComputeEdge (nextEdgeId g) k src tgt)\<lparr> label := varName \<rparr>;
          g1 = g\<lparr> nextEdgeId := nextEdgeId g + 1, edges := smap_put (edge_id e) e (edges g) \<rparr>;
          g2 = UpdateAdjacencyLists e g1;
          g3 = push_output src tgt g2;
          g4 = push_input src tgt g3
      in (e, g4))"

text \<open>
  \<^verbatim>\<open>RemoveEdge\<close>: \<^verbatim>\<open>outEdges[src]\<close> and \<^verbatim>\<open>inEdges[tgt]\<close> are reached through
  \<^verbatim>\<open>operator[]\<close>, which creates a missing entry, and lose every occurrence of the ID.
\<close>

definition erase_at :: "('k \<rightharpoonup> 'a list) \<Rightarrow> 'k \<Rightarrow> 'a \<Rightarrow> ('k \<rightharpoonup> 'a list)" where
  "erase_at m k x = m(k \<mapsto> removeAll x (case m k of None \<Rightarrow> [] | Some xs \<Rightarrow> xs))"

definition RemoveEdge :: "EdgeId \<Rightarrow> ComputeGraph \<Rightarrow> ComputeGraph" where
  "RemoveEdge i g =
     (case smap_find i (edges g) of
        None \<Rightarrow> g
      | Some e \<Rightarrow>
          g\<lparr> outEdges := erase_at (outEdges g) (sourceId e) i,
             inEdges := erase_at (inEdges g) (targetId e) i,
             edges := smap_erase i (edges g) \<rparr>)"

definition edges_of_ids :: "ComputeGraph \<Rightarrow> EdgeId list \<Rightarrow> ComputeEdge list" where
  "edges_of_ids g ids = List.map_filter (GetEdge g) ids"

definition GetIncomingEdges :: "ComputeGraph \<Rightarrow> NodeId \<Rightarrow> ComputeEdge list" where
  "GetIncomingEdges g n =
     (case inEdges g n of None \<Rightarrow> [] | Some ids \<Rightarrow> edges_of_ids g ids)"


definition GetRootNodes :: "ComputeGraph \<Rightarrow> ComputeNode list" where
  "GetRootNodes g = filter (\<lambda>n. inputNodes n = []) (map snd (nodes g))"

definition GetLeafNodes :: "ComputeGraph \<Rightarrow> ComputeNode list" where
  "GetLeafNodes g = filter (\<lambda>n. outputNodes n = []) (map snd (nodes g))"

text \<open>\<^verbatim>\<open>Clear\<close> empties every container and sets both counters to 0.\<close>

definition Clear :: "ComputeGraph \<Rightarrow> ComputeGraph" where
  "Clear g =
     g\<lparr> nodes := [], edges := [], stmtToNode := Map.empty, nameToNode := Map.empty,
        inEdges := Map.empty, outEdges := Map.empty, nextNodeId := 0, nextEdgeId := 0 \<rparr>"


section \<open>Agreement of the node vectors with the edge map\<close>

text \<open>
  \<^verbatim>\<open>GetRootNodes\<close>, \<^verbatim>\<open>GetLeafNodes\<close> and \<^verbatim>\<open>TopologicalSort\<close> read the per-node vectors
  \<^verbatim>\<open>inputNodes\<close> and \<^verbatim>\<open>outputNodes\<close>. They agree with the edge map when, for every node,
  \<^verbatim>\<open>outputNodes\<close> lists the targets of the edges leaving it and \<^verbatim>\<open>inputNodes\<close> the sources
  of the edges entering it, each as often as there are such edges.
\<close>

definition edge_targets_from :: "ComputeGraph \<Rightarrow> NodeId \<Rightarrow> NodeId list" where
  "edge_targets_from g i = map targetId (filter (\<lambda>e. sourceId e = i) (map snd (edges g)))"

definition edge_sources_into :: "ComputeGraph \<Rightarrow> NodeId \<Rightarrow> NodeId list" where
  "edge_sources_into g i = map sourceId (filter (\<lambda>e. targetId e = i) (map snd (edges g)))"

definition io_agrees :: "ComputeGraph \<Rightarrow> bool" where
  "io_agrees g =
     (\<forall>(i, n) \<in> set (nodes g).
        mset (outputNodes n) = mset (edge_targets_from g i) \<and>
        mset (inputNodes n) = mset (edge_sources_into g i))"

definition adjacent_ids :: "('k \<rightharpoonup> 'a list) \<Rightarrow> 'k \<Rightarrow> 'a list" where
  "adjacent_ids m k = (case m k of None \<Rightarrow> [] | Some xs \<Rightarrow> xs)"

text \<open>
  A weaker relation, kept by \<^verbatim>\<open>RemoveEdge\<close>: the node vectors hold at least the entries that
  the edge map gives, each at least as often.
\<close>

definition io_covers :: "ComputeGraph \<Rightarrow> bool" where
  "io_covers g =
     (\<forall>(i, n) \<in> set (nodes g).
        mset (edge_targets_from g i) \<subseteq># mset (outputNodes n) \<and>
        mset (edge_sources_into g i) \<subseteq># mset (inputNodes n))"

text \<open>
  Three graphs built through \<^verbatim>\<open>CreateNode\<close> and \<^verbatim>\<open>AddEdge\<close>: an edge added before its
  endpoints exist as nodes, an edge neither endpoint of which ever becomes a node, and a
  chain of three nodes with two edges.
\<close>

definition late_nodes_graph :: ComputeGraph where
  "late_nodes_graph =
     snd (CreateNode BinaryOp (snd (CreateNode ArrayAccess
       (snd (AddEdge 1 2 DataFlow ''rhs'' (new_ComputeGraph ''f_L2''))))))"

definition dangling_edge_graph :: ComputeGraph where
  "dangling_edge_graph =
     snd (AddEdge 5 6 DataFlow ''rhs'' (snd (CreateNode ArrayAccess (new_ComputeGraph ''f_L2''))))"

definition chain_graph :: ComputeGraph where
  "chain_graph =
     snd (AddEdge 2 3 DataFlow ''lhs'' (snd (AddEdge 1 2 DataFlow ''rhs''
       (snd (CreateNode Store (snd (CreateNode BinaryOp (snd (CreateNode ArrayAccess
          (new_ComputeGraph ''f_L2''))))))))))"


section \<open>Node identifiers\<close>

lemma smap_find_put: "smap_find k' (smap_put k v m) = (if k' = k then Some v else smap_find k' m)"
  by (induction m) auto

text \<open>
  C5. The header reserves node ID 0 as invalid and starts the counter at 1, but \<^verbatim>\<open>Clear\<close>
  resets the counter to 0: the first node created after a \<^verbatim>\<open>Clear\<close> gets ID 0 and is live in
  the graph, and the next one gets ID 1 again, the ID the first node of the graph had before
  the \<^verbatim>\<open>Clear\<close>.
\<close>

theorem Clear_CreateNode_hands_out_zero:
  "node_id (fst (CreateNode k (Clear g))) = 0
   \<and> GetNode (snd (CreateNode k (Clear g))) 0 = Some (fst (CreateNode k (Clear g)))
   \<and> node_id (fst (CreateNode k (new_ComputeGraph n))) = 1
   \<and> node_id (fst (CreateNode k' (snd (CreateNode k (Clear (snd (CreateNode k (new_ComputeGraph n)))))))) = 1"
  by (simp add: CreateNode_def Clear_def GetNode_def new_ComputeNode_def new_ComputeGraph_def
      Let_def smap_find_put)

section \<open>Removing an edge\<close>

lemma smap_find_lt_None: "sorted_wrt (<) (map fst m) \<Longrightarrow> \<forall>k'\<in>fst ` set m. k < k' \<Longrightarrow> smap_find k m = None"
  by (induction m) auto

lemma smap_find_SomeD: "smap_find k m = Some v \<Longrightarrow> (k, v) \<in> set m"
  by (induction m) (auto split: if_splits)



lemma smap_erase_mset:
  "smap_ok m \<Longrightarrow> smap_find i m = Some e \<Longrightarrow> mset m = add_mset (i, e) (mset (smap_erase i m))"
  unfolding smap_ok_def
  by (induction m) (auto split: if_splits)

lemma smap_find_erase_same: "smap_ok m \<Longrightarrow> smap_find i (smap_erase i m) = None"
  unfolding smap_ok_def
  by (induction m) (auto simp: smap_find_lt_None)

lemma targets_after_erase:
  assumes "smap_ok (edges g)" "smap_find i (edges g) = Some e"
  shows "length (edge_targets_from g (sourceId e)) =
         Suc (length (edge_targets_from (RemoveEdge i g) (sourceId e)))"
proof -
  have "mset (edges g) = add_mset (i, e) (mset (smap_erase i (edges g)))"
    using assms by (rule smap_erase_mset)
  then have "mset (map snd (edges g)) = add_mset e (mset (map snd (smap_erase i (edges g))))"
    by (metis (no_types, lifting) image_mset_add_mset mset_map snd_conv)
  then have "size (filter_mset (\<lambda>e'. sourceId e' = sourceId e) (mset (map snd (edges g)))) =
        Suc (size (filter_mset (\<lambda>e'. sourceId e' = sourceId e) (mset (map snd (smap_erase i (edges g))))))"
    by simp
  then show ?thesis
    using assms(2) by (simp add: edge_targets_from_def RemoveEdge_def flip: size_mset)
qed

lemma sources_after_erase:
  assumes "smap_ok (edges g)" "smap_find i (edges g) = Some e"
  shows "length (edge_sources_into g (targetId e)) =
         Suc (length (edge_sources_into (RemoveEdge i g) (targetId e)))"
proof -
  have "mset (edges g) = add_mset (i, e) (mset (smap_erase i (edges g)))"
    using assms by (rule smap_erase_mset)
  then have "mset (map snd (edges g)) = add_mset e (mset (map snd (smap_erase i (edges g))))"
    by (metis (no_types, lifting) image_mset_add_mset mset_map snd_conv)
  then have "size (filter_mset (\<lambda>e'. targetId e' = targetId e) (mset (map snd (edges g)))) =
        Suc (size (filter_mset (\<lambda>e'. targetId e' = targetId e) (mset (map snd (smap_erase i (edges g))))))"
    by simp
  then show ?thesis
    using assms(2) by (simp add: edge_sources_into_def RemoveEdge_def flip: size_mset)
qed

lemma RemoveEdge_nodes: "nodes (RemoveEdge i g) = nodes g"
  by (simp add: RemoveEdge_def split: option.splits)

lemma io_agrees_covers: "io_agrees g \<Longrightarrow> io_covers g"
  by (auto simp: io_agrees_def io_covers_def)

lemma erased_edges_mset:
  assumes "smap_ok (edges g)" "smap_find i (edges g) = Some e"
  shows "mset (map snd (edges g)) = add_mset e (mset (map snd (edges (RemoveEdge i g))))"
proof -
  have "mset (edges g) = add_mset (i, e) (mset (smap_erase i (edges g)))"
    using assms by (rule smap_erase_mset)
  then have "mset (map snd (edges g)) = add_mset e (mset (map snd (smap_erase i (edges g))))"
    by (metis (no_types, lifting) image_mset_add_mset mset_map snd_conv)
  then show ?thesis using assms(2) by (simp add: RemoveEdge_def)
qed

lemma erased_edges_subset:
  assumes "smap_ok (edges g)" "smap_find i (edges g) = Some e"
  shows "mset (map snd (edges (RemoveEdge i g))) \<subseteq># mset (map snd (edges g))"
  unfolding erased_edges_mset [OF assms] by simp

lemma targets_subset_after_erase:
  assumes "smap_ok (edges g)" "smap_find i (edges g) = Some e"
  shows "mset (edge_targets_from (RemoveEdge i g) n) \<subseteq># mset (edge_targets_from g n)"
proof -
  have "filter_mset (\<lambda>e. sourceId e = n) (mset (map snd (edges (RemoveEdge i g))))
        \<subseteq># filter_mset (\<lambda>e. sourceId e = n) (mset (map snd (edges g)))"
    by (rule multiset_filter_mono [OF erased_edges_subset [OF assms]])
  hence "image_mset targetId
           (filter_mset (\<lambda>e. sourceId e = n) (mset (map snd (edges (RemoveEdge i g)))))
        \<subseteq># image_mset targetId
           (filter_mset (\<lambda>e. sourceId e = n) (mset (map snd (edges g))))"
    by (rule image_mset_subseteq_mono)
  thus ?thesis by (simp only: edge_targets_from_def mset_map mset_filter)
qed

lemma sources_subset_after_erase:
  assumes "smap_ok (edges g)" "smap_find i (edges g) = Some e"
  shows "mset (edge_sources_into (RemoveEdge i g) n) \<subseteq># mset (edge_sources_into g n)"
proof -
  have "filter_mset (\<lambda>e. targetId e = n) (mset (map snd (edges (RemoveEdge i g))))
        \<subseteq># filter_mset (\<lambda>e. targetId e = n) (mset (map snd (edges g)))"
    by (rule multiset_filter_mono [OF erased_edges_subset [OF assms]])
  hence "image_mset sourceId
           (filter_mset (\<lambda>e. targetId e = n) (mset (map snd (edges (RemoveEdge i g)))))
        \<subseteq># image_mset sourceId
           (filter_mset (\<lambda>e. targetId e = n) (mset (map snd (edges g))))"
    by (rule image_mset_subseteq_mono)
  thus ?thesis by (simp only: edge_sources_into_def mset_map mset_filter)
qed

lemma late_nodes_graph_eval:
  "nodes late_nodes_graph = [(1, new_ComputeNode ArrayAccess 1), (2, new_ComputeNode BinaryOp 2)]"
  "edges late_nodes_graph = [(0, (new_ComputeEdge 0 DataFlow 1 2)\<lparr>label := ''rhs''\<rparr>)]"
  by (simp_all add: late_nodes_graph_def AddEdge_def CreateNode_def new_ComputeGraph_def Let_def
      UpdateAdjacencyLists_def push_output_def push_input_def GetNode_def new_ComputeNode_def
      new_ComputeEdge_def)

lemma dangling_edge_graph_eval:
  "nodes dangling_edge_graph = [(1, new_ComputeNode ArrayAccess 1)]"
  "edges dangling_edge_graph = [(0, (new_ComputeEdge 0 DataFlow 5 6)\<lparr>label := ''rhs''\<rparr>)]"
  by (simp_all add: dangling_edge_graph_def AddEdge_def CreateNode_def new_ComputeGraph_def
      Let_def UpdateAdjacencyLists_def push_output_def push_input_def GetNode_def
      new_ComputeNode_def new_ComputeEdge_def)

lemma io_agrees_eval:
  "io_agrees g =
     list_all (\<lambda>(i, n). mset (outputNodes n) = mset (edge_targets_from g i) \<and>
                         mset (inputNodes n) = mset (edge_sources_into g i)) (nodes g)"
  by (auto simp: io_agrees_def list_all_iff)

text \<open>
  C9, as the code has it. \<^verbatim>\<open>AddEdge\<close> pushes onto \<^verbatim>\<open>outputNodes\<close> and \<^verbatim>\<open>inputNodes\<close>
  only when the endpoint is a node at that moment. For an edge added before its endpoints
  are created the vectors stay empty, so they disagree with the edge map while the edge is
  there and agree once it is removed; for an edge between two IDs that are not nodes the
  vectors agree before and after. So it is not after any removal that they disagree.
\<close>

theorem RemoveEdge_can_restore_agreement:
  "GetEdge late_nodes_graph 0 \<noteq> None \<and>
   \<not> io_agrees late_nodes_graph \<and>
   io_agrees (RemoveEdge 0 late_nodes_graph) \<and>
   GetEdge dangling_edge_graph 0 \<noteq> None \<and>
   io_agrees dangling_edge_graph \<and>
   io_agrees (RemoveEdge 0 dangling_edge_graph)"
proof -
  have 1: "GetEdge late_nodes_graph 0 \<noteq> None" "GetEdge dangling_edge_graph 0 \<noteq> None"
    by (simp_all add: GetEdge_def late_nodes_graph_eval dangling_edge_graph_eval)
  have 2: "\<not> io_agrees late_nodes_graph"
    by (simp add: io_agrees_eval edge_targets_from_def edge_sources_into_def
        late_nodes_graph_eval new_ComputeNode_def new_ComputeEdge_def)
  have 3: "io_agrees dangling_edge_graph"
    by (simp add: io_agrees_eval edge_targets_from_def edge_sources_into_def
        dangling_edge_graph_eval new_ComputeNode_def new_ComputeEdge_def)
  have "edges (RemoveEdge 0 late_nodes_graph) = []"
    by (simp add: RemoveEdge_def late_nodes_graph_eval)
  hence 4: "io_agrees (RemoveEdge 0 late_nodes_graph)"
    by (simp add: io_agrees_eval edge_targets_from_def edge_sources_into_def RemoveEdge_nodes
        late_nodes_graph_eval new_ComputeNode_def)
  have "edges (RemoveEdge 0 dangling_edge_graph) = []"
    by (simp add: RemoveEdge_def dangling_edge_graph_eval)
  hence 5: "io_agrees (RemoveEdge 0 dangling_edge_graph)"
    by (simp add: io_agrees_eval edge_targets_from_def edge_sources_into_def RemoveEdge_nodes
        dangling_edge_graph_eval new_ComputeNode_def)
  from 1 2 3 4 5 show ?thesis by blast
qed

text \<open>
  C9, amended. \<^verbatim>\<open>RemoveEdge\<close> takes the edge out of the edge map and out of the
  \<^verbatim>\<open>outEdges\<close> list of its source and the \<^verbatim>\<open>inEdges\<close> list of its target, and leaves every
  node as it was, so the entries that \<^verbatim>\<open>AddEdge\<close> appended to \<^verbatim>\<open>outputNodes\<close> and
  \<^verbatim>\<open>inputNodes\<close> stay. If the node vectors held at least the entries of the edge map before
  (as they do when they agree with it, and after any earlier removal), they still do
  afterwards, and if moreover an endpoint of the removed edge is a node of the graph, they
  do not agree with the edge map afterwards.
\<close>

theorem RemoveEdge_leaves_node_vectors:
  assumes ok: "smap_ok (edges g)"
    and e: "GetEdge g i = Some e"
  shows "GetEdge (RemoveEdge i g) i = None
    \<and> i \<notin> set (adjacent_ids (outEdges (RemoveEdge i g)) (sourceId e))
    \<and> i \<notin> set (adjacent_ids (inEdges (RemoveEdge i g)) (targetId e))
    \<and> nodes (RemoveEdge i g) = nodes g
    \<and> (\<forall>n. GetNode (RemoveEdge i g) n = GetNode g n)
    \<and> (io_agrees g \<longrightarrow> io_covers g)
    \<and> (io_covers g \<longrightarrow> io_covers (RemoveEdge i g))
    \<and> (io_covers g \<and> (GetNode g (sourceId e) \<noteq> None \<or> GetNode g (targetId e) \<noteq> None)
         \<longrightarrow> \<not> io_agrees (RemoveEdge i g))"
proof -
  from e have f: "smap_find i (edges g) = Some e" by (simp add: GetEdge_def)
  have 1: "GetEdge (RemoveEdge i g) i = None"
    using ok f by (simp add: GetEdge_def RemoveEdge_def smap_find_erase_same)
  have 2: "i \<notin> set (adjacent_ids (outEdges (RemoveEdge i g)) (sourceId e))"
    using f by (simp add: RemoveEdge_def adjacent_ids_def erase_at_def)
  have 3: "i \<notin> set (adjacent_ids (inEdges (RemoveEdge i g)) (targetId e))"
    using f by (simp add: RemoveEdge_def adjacent_ids_def erase_at_def)
  have 4: "nodes (RemoveEdge i g) = nodes g" by (rule RemoveEdge_nodes)
  have 5: "\<forall>n. GetNode (RemoveEdge i g) n = GetNode g n"
    by (simp add: GetNode_def RemoveEdge_nodes)
  have 6: "io_agrees g \<longrightarrow> io_covers g" by (simp add: io_agrees_covers)
  have 7: "io_covers (RemoveEdge i g)" if c: "io_covers g"
  proof -
    have "mset (edge_targets_from (RemoveEdge i g) n) \<subseteq># mset (outputNodes nd) \<and>
          mset (edge_sources_into (RemoveEdge i g) n) \<subseteq># mset (inputNodes nd)"
      if m: "(n, nd) \<in> set (nodes g)" for n nd
    proof -
      from c m have t: "mset (edge_targets_from g n) \<subseteq># mset (outputNodes nd)"
        and s: "mset (edge_sources_into g n) \<subseteq># mset (inputNodes nd)"
        by (auto simp: io_covers_def)
      from targets_subset_after_erase [OF ok f, of n] t
      have "mset (edge_targets_from (RemoveEdge i g) n) \<subseteq># mset (outputNodes nd)"
        by (rule subset_mset.order_trans)
      moreover from sources_subset_after_erase [OF ok f, of n] s
      have "mset (edge_sources_into (RemoveEdge i g) n) \<subseteq># mset (inputNodes nd)"
        by (rule subset_mset.order_trans)
      ultimately show ?thesis by simp
    qed
    thus ?thesis unfolding io_covers_def RemoveEdge_nodes by blast
  qed
  have 8: "\<not> io_agrees (RemoveEdge i g)"
    if c: "io_covers g" and n: "GetNode g (sourceId e) \<noteq> None \<or> GetNode g (targetId e) \<noteq> None"
  proof
    assume b: "io_agrees (RemoveEdge i g)"
    from n show False
    proof
      assume "GetNode g (sourceId e) \<noteq> None"
      then obtain nd where "smap_find (sourceId e) (nodes g) = Some nd"
        by (auto simp: GetNode_def)
      then have m: "(sourceId e, nd) \<in> set (nodes g)" by (rule smap_find_SomeD)
      from c m have "mset (edge_targets_from g (sourceId e)) \<subseteq># mset (outputNodes nd)"
        by (auto simp: io_covers_def)
      hence "size (mset (edge_targets_from g (sourceId e))) \<le> size (mset (outputNodes nd))"
        by (rule size_mset_mono)
      moreover from b m have "mset (outputNodes nd) = mset (edge_targets_from (RemoveEdge i g) (sourceId e))"
        by (auto simp: io_agrees_def RemoveEdge_nodes)
      ultimately have "length (edge_targets_from g (sourceId e)) \<le>
          length (edge_targets_from (RemoveEdge i g) (sourceId e))"
        by simp
      with targets_after_erase [OF ok f] show False by simp
    next
      assume "GetNode g (targetId e) \<noteq> None"
      then obtain nd where "smap_find (targetId e) (nodes g) = Some nd"
        by (auto simp: GetNode_def)
      then have m: "(targetId e, nd) \<in> set (nodes g)" by (rule smap_find_SomeD)
      from c m have "mset (edge_sources_into g (targetId e)) \<subseteq># mset (inputNodes nd)"
        by (auto simp: io_covers_def)
      hence "size (mset (edge_sources_into g (targetId e))) \<le> size (mset (inputNodes nd))"
        by (rule size_mset_mono)
      moreover from b m have "mset (inputNodes nd) = mset (edge_sources_into (RemoveEdge i g) (targetId e))"
        by (auto simp: io_agrees_def RemoveEdge_nodes)
      ultimately have "length (edge_sources_into g (targetId e)) \<le>
          length (edge_sources_into (RemoveEdge i g) (targetId e))"
        by simp
      with sources_after_erase [OF ok f] show False by simp
    qed
  qed
  from 1 2 3 4 5 6 7 8 show ?thesis by blast
qed

lemma chain_graph_eval:
  "nodes chain_graph =
     [(1, (new_ComputeNode ArrayAccess 1)\<lparr>outputNodes := [2]\<rparr>),
      (2, (new_ComputeNode BinaryOp 2)\<lparr>inputNodes := [1], outputNodes := [3]\<rparr>),
      (3, (new_ComputeNode Store 3)\<lparr>inputNodes := [2]\<rparr>)]"
  "edges chain_graph = [(0, (new_ComputeEdge 0 DataFlow 1 2)\<lparr>label := ''rhs''\<rparr>),
                        (1, (new_ComputeEdge 1 DataFlow 2 3)\<lparr>label := ''lhs''\<rparr>)]"
  by (simp_all add: chain_graph_def AddEdge_def CreateNode_def new_ComputeGraph_def Let_def
      UpdateAdjacencyLists_def push_output_def push_input_def GetNode_def new_ComputeNode_def
      new_ComputeEdge_def)

theorem RemoveEdge_leaves_node_vectors_witness:
  "io_agrees chain_graph
   \<and> GetEdge (RemoveEdge 0 chain_graph) 0 = None
   \<and> map (outputNodes \<circ> snd) (nodes (RemoveEdge 0 chain_graph)) = [[2], [3], []]
   \<and> map (inputNodes \<circ> snd) (nodes (RemoveEdge 0 chain_graph)) = [[], [1], [2]]
   \<and> \<not> io_agrees (RemoveEdge 0 chain_graph)
   \<and> GetEdge (RemoveEdge 1 (RemoveEdge 0 chain_graph)) 1 = None
   \<and> \<not> io_agrees (RemoveEdge 1 (RemoveEdge 0 chain_graph))"
proof -
  let ?e0 = "(new_ComputeEdge 0 DataFlow 1 2)\<lparr>label := ''rhs''\<rparr>"
  let ?e1 = "(new_ComputeEdge 1 DataFlow 2 3)\<lparr>label := ''lhs''\<rparr>"
  let ?g1 = "RemoveEdge 0 chain_graph"
  have ok: "smap_ok (edges chain_graph)"
    by (simp add: chain_graph_eval smap_ok_def)
  have e0: "GetEdge chain_graph 0 = Some ?e0"
    by (simp add: GetEdge_def chain_graph_eval)
  have a: "io_agrees chain_graph"
    by (simp add: io_agrees_eval chain_graph_eval edge_targets_from_def edge_sources_into_def
        new_ComputeNode_def new_ComputeEdge_def)
  have n0: "GetNode chain_graph (sourceId ?e0) \<noteq> None"
    by (simp add: GetNode_def chain_graph_eval new_ComputeEdge_def)
  note first = RemoveEdge_leaves_node_vectors [OF ok e0]
  from first a have c1: "io_covers ?g1" by blast
  from first a n0 have d1: "\<not> io_agrees ?g1" by blast
  from first have g0: "GetEdge ?g1 0 = None" by blast
  have edges1: "edges ?g1 = [(1, ?e1)]"
    by (simp add: RemoveEdge_def chain_graph_eval)
  have ok1: "smap_ok (edges ?g1)" by (simp add: edges1 smap_ok_def)
  have e1: "GetEdge ?g1 1 = Some ?e1" by (simp add: GetEdge_def edges1)
  have n1: "GetNode ?g1 (sourceId ?e1) \<noteq> None"
    by (simp add: GetNode_def RemoveEdge_nodes chain_graph_eval new_ComputeEdge_def)
  note second = RemoveEdge_leaves_node_vectors [OF ok1 e1]
  from second c1 n1 have d2: "\<not> io_agrees (RemoveEdge 1 ?g1)" by blast
  from second have g1: "GetEdge (RemoveEdge 1 ?g1) 1 = None" by blast
  have v: "map (outputNodes \<circ> snd) (nodes ?g1) = [[2], [3], []]"
    "map (inputNodes \<circ> snd) (nodes ?g1) = [[], [1], [2]]"
    by (simp_all add: RemoveEdge_nodes chain_graph_eval new_ComputeNode_def)
  from a g0 v d1 g1 d2 show ?thesis by blast
qed

section \<open>Anchor finder\<close>

text \<open>\<^verbatim>\<open>struct AnchorPoint\<close> (\<^verbatim>\<open>ComputeGraphAnchor.h\<close>).\<close>

record AnchorPoint =
  stmt :: StmtPtr
  func :: "nat option"
  expectedKind :: ComputeNodeKind
  anchor_opCode :: OpCode
  anchor_loopDepth :: int
  isInLoop :: bool
  score :: int
  anchor_sourceLine :: int

text \<open>\<^verbatim>\<open>AnchorFinder::ComputeAnchorScore\<close>: the switch on the opcode, then the two tests on the kind.\<close>

definition ComputeAnchorScore :: "AnchorPoint \<Rightarrow> int" where
  "ComputeAnchorScore anchor =
     (let score0 = 0 + anchor_loopDepth anchor * 100;
          score1 = (case anchor_opCode anchor of
                      Mul \<Rightarrow> score0 + 80
                    | Add \<Rightarrow> score0 + 60 | Sub \<Rightarrow> score0 + 60
                    | Shl \<Rightarrow> score0 + 60 | Shr \<Rightarrow> score0 + 60
                    | And \<Rightarrow> score0 + 60 | Or \<Rightarrow> score0 + 60 | Xor \<Rightarrow> score0 + 60
                    | Div \<Rightarrow> score0 + 40 | Mod \<Rightarrow> score0 + 40
                    | _ \<Rightarrow> score0);
          score2 = (if expectedKind anchor = ArrayAccess then score1 + 70 else score1);
          score3 = (if expectedKind anchor = Call then score2 + 50 else score2)
      in score3)"

text \<open>The score formula as the specification words it.\<close>

definition spec_op_bonus :: "OpCode \<Rightarrow> int" where
  "spec_op_bonus op =
     (if op = Mul then 80
      else if op \<in> {Add, Sub, Shl, Shr, And, Or, Xor} then 60
      else if op \<in> {Div, Mod} then 40 else 0)"

definition spec_kind_bonus :: "ComputeNodeKind \<Rightarrow> int" where
  "spec_kind_bonus k = (if k = ArrayAccess then 70 else if k = Call then 50 else 0)"

text \<open>Clang's binary operator codes (\<^verbatim>\<open>clang::BinaryOperatorKind\<close>).\<close>

datatype BinaryOperatorKind =
    BO_PtrMemD | BO_PtrMemI
  | BO_Mul | BO_Div | BO_Rem | BO_Add | BO_Sub | BO_Shl | BO_Shr
  | BO_Cmp | BO_LT | BO_GT | BO_LE | BO_GE | BO_EQ | BO_NE
  | BO_And | BO_Xor | BO_Or | BO_LAnd | BO_LOr
  | BO_Assign | BO_MulAssign | BO_DivAssign | BO_RemAssign | BO_AddAssign | BO_SubAssign
  | BO_ShlAssign | BO_ShrAssign | BO_AndAssign | BO_XorAssign | BO_OrAssign
  | BO_Comma

definition IsVectorizableBinaryOp :: "BinaryOperatorKind \<Rightarrow> bool" where
  "IsVectorizableBinaryOp op =
     (op \<in> {BO_Add, BO_Sub, BO_Mul, BO_Div, BO_Rem, BO_Shl, BO_Shr, BO_And, BO_Or, BO_Xor,
            BO_LT, BO_GT, BO_LE, BO_GE, BO_EQ, BO_NE,
            BO_AddAssign, BO_SubAssign, BO_MulAssign, BO_DivAssign, BO_RemAssign,
            BO_ShlAssign, BO_ShrAssign, BO_AndAssign, BO_OrAssign, BO_XorAssign})"

definition IsComparisonOp :: "BinaryOperatorKind \<Rightarrow> bool" where
  "IsComparisonOp op = (op \<in> {BO_LT, BO_GT, BO_LE, BO_GE, BO_EQ, BO_NE})"

fun GetOpCode :: "BinaryOperatorKind \<Rightarrow> OpCode" where
  "GetOpCode BO_Add = Add" | "GetOpCode BO_AddAssign = Add"
| "GetOpCode BO_Sub = Sub" | "GetOpCode BO_SubAssign = Sub"
| "GetOpCode BO_Mul = Mul" | "GetOpCode BO_MulAssign = Mul"
| "GetOpCode BO_Div = Div" | "GetOpCode BO_DivAssign = Div"
| "GetOpCode BO_Rem = Mod" | "GetOpCode BO_RemAssign = Mod"
| "GetOpCode BO_Shl = Shl" | "GetOpCode BO_ShlAssign = Shl"
| "GetOpCode BO_Shr = Shr" | "GetOpCode BO_ShrAssign = Shr"
| "GetOpCode BO_And = And" | "GetOpCode BO_AndAssign = And"
| "GetOpCode BO_Or = Or" | "GetOpCode BO_OrAssign = Or"
| "GetOpCode BO_Xor = Xor" | "GetOpCode BO_XorAssign = Xor"
| "GetOpCode BO_LT = Lt" | "GetOpCode BO_GT = Gt" | "GetOpCode BO_LE = Le"
| "GetOpCode BO_GE = Ge" | "GetOpCode BO_EQ = Eq" | "GetOpCode BO_NE = Ne"
| "GetOpCode BO_Assign = Assign"
| "GetOpCode _ = UnknownOp"

text \<open>
  What the visitor asks the frontend about one \<^verbatim>\<open>clang::BinaryOperator\<close>: its address,
  opcode and line, the statements of its subtree (itself included, what
  \<^verbatim>\<open>MarkSubExprsAsAdded\<close> walks), its parents as far as \<^verbatim>\<open>CheckTopLevelExpression\<close> looks
  at them, and the answers of the position tests that walk the parent chain.
\<close>

datatype ParentNode = ParentBinaryOperator BinaryOperatorKind | ParentOther

record BinaryOperator =
  bo_stmt :: StmtPtr
  bo_opcode :: BinaryOperatorKind
  bo_line :: int
  bo_subtree :: "StmtPtr list"
  bo_parents :: "ParentNode list"
  bo_IsInLoopCondition :: bool
  bo_IsInIfCondition :: bool
  bo_IsInArraySubscript :: bool
  bo_CountOperations :: int
  bo_rhs_ContainsVectorizableOp :: bool
  bo_rhs_ContainsArrayAccess :: bool
  bo_lhs_ContainsArrayAccess :: bool

text \<open>The state of an \<^verbatim>\<open>AnchorVisitor\<close>.\<close>

record AnchorVisitor =
  currentFunc :: "nat option"
  anchors :: "AnchorPoint list"
  currentLoopDepth :: int
  isInLoopIncrement :: bool
  addedStmts :: "StmtPtr set"

definition AddAnchor ::
  "BinaryOperator \<Rightarrow> ComputeNodeKind \<Rightarrow> OpCode \<Rightarrow> AnchorVisitor \<Rightarrow> AnchorVisitor" where
  "AddAnchor b k op v =
     (if bo_stmt b \<in> addedStmts v then v
      else v\<lparr> anchors := anchors v @
                  [\<lparr> stmt = bo_stmt b, func = currentFunc v, expectedKind = k,
                     anchor_opCode = op, anchor_loopDepth = currentLoopDepth v,
                     isInLoop = (currentLoopDepth v > 0), score = 0,
                     anchor_sourceLine = bo_line b \<rparr>],
               addedStmts := insert (bo_stmt b) (addedStmts v) \<rparr>)"

definition MarkSubExprsAsAdded :: "BinaryOperator \<Rightarrow> AnchorVisitor \<Rightarrow> AnchorVisitor" where
  "MarkSubExprsAsAdded b v = v\<lparr> addedStmts := addedStmts v \<union> set (bo_subtree b) \<rparr>"

definition ProcessAssignment :: "BinaryOperator \<Rightarrow> AnchorVisitor \<Rightarrow> AnchorVisitor" where
  "ProcessAssignment b v =
     (if bo_rhs_ContainsVectorizableOp b
      then MarkSubExprsAsAdded b (AddAnchor b BinaryOp Assign v)
      else if bo_rhs_ContainsArrayAccess b \<and> bo_lhs_ContainsArrayAccess b
      then MarkSubExprsAsAdded b (AddAnchor b BinaryOp Assign v)
      else v)"

definition IsSimpleArrayIndexExpr :: "BinaryOperator \<Rightarrow> bool" where
  "IsSimpleArrayIndexExpr b = (bo_IsInArraySubscript b \<and> bo_CountOperations b \<le> 1)"

definition is_vectorizable_parent :: "ParentNode \<Rightarrow> bool" where
  "is_vectorizable_parent p =
     (case p of ParentBinaryOperator op \<Rightarrow> IsVectorizableBinaryOp op | ParentOther \<Rightarrow> False)"

definition CheckTopLevelExpression :: "BinaryOperator \<Rightarrow> AnchorVisitor \<Rightarrow> AnchorVisitor" where
  "CheckTopLevelExpression b v =
     (let hasParentBinOp = list_ex is_vectorizable_parent (bo_parents b)
      in if \<not> hasParentBinOp
         then MarkSubExprsAsAdded b (AddAnchor b BinaryOp (GetOpCode (bo_opcode b)) v)
         else v)"

definition ProcessNonAssignment :: "BinaryOperator \<Rightarrow> AnchorVisitor \<Rightarrow> AnchorVisitor" where
  "ProcessNonAssignment b v =
     (if bo_IsInLoopCondition b then v
      else if bo_IsInIfCondition b \<and> \<not> IsComparisonOp (bo_opcode b) then v
      else if \<not> IsVectorizableBinaryOp (bo_opcode b) then v
      else if bo_stmt b \<in> addedStmts v then v
      else if IsSimpleArrayIndexExpr b then v
      else CheckTopLevelExpression b v)"

definition VisitBinaryOperator :: "BinaryOperator \<Rightarrow> AnchorVisitor \<Rightarrow> AnchorVisitor" where
  "VisitBinaryOperator b v =
     (if isInLoopIncrement v then v
      else if bo_opcode b = BO_Assign then ProcessAssignment b v
      else ProcessNonAssignment b v)"

text \<open>
  \<^verbatim>\<open>FindAnchorsInFunction\<close> runs the visitor over the body and then stores
  \<^verbatim>\<open>ComputeAnchorScore\<close> in every anchor. The traversal is given by the binary operators it
  visits, in visiting order, each with the loop depth and increment flag in force there.
\<close>

definition visit_at :: "int \<times> bool \<times> BinaryOperator \<Rightarrow> AnchorVisitor \<Rightarrow> AnchorVisitor" where
  "visit_at x v =
     (case x of (depth, inInc, b) \<Rightarrow>
        VisitBinaryOperator b (v\<lparr> currentLoopDepth := depth, isInLoopIncrement := inInc \<rparr>))"

definition FindAnchorsInFunction ::
  "nat \<Rightarrow> (int \<times> bool \<times> BinaryOperator) list \<Rightarrow> AnchorPoint list" where
  "FindAnchorsInFunction f visits =
     (let v0 = \<lparr> currentFunc = Some f, anchors = [], currentLoopDepth = 0,
                 isInLoopIncrement = False, addedStmts = {} \<rparr>;
          v = fold visit_at visits v0
      in map (\<lambda>a. a\<lparr> score := ComputeAnchorScore a \<rparr>) (anchors v))"

text \<open>
  The simple-accumulator scenario, with \<^verbatim>\<open>for\<close> on line 2:
  \<^verbatim>\<open>int sum = 0; for (int i = 0; i < n; ++i) sum += a[i] * b[i];\<close>
  \<^verbatim>\<open>TraverseForStmt\<close> raises the depth to 1 and walks the initialiser, the condition, the
  increment and the body. The binary operators met are \<^verbatim>\<open>i < n\<close> (statement 10, inside the
  loop condition), \<^verbatim>\<open>sum += a[i] * b[i]\<close> (statement 20, whose parent is the \<^verbatim>\<open>for\<close>
  statement) and \<^verbatim>\<open>a[i] * b[i]\<close> (statement 22, below statement 20). The statements of a
  subtree are numbered consecutively from its root.
\<close>

definition accumulator_cond :: BinaryOperator where
  "accumulator_cond =
     \<lparr> bo_stmt = 10, bo_opcode = BO_LT, bo_line = 2, bo_subtree = [10..<15],
       bo_parents = [ParentOther], bo_IsInLoopCondition = True, bo_IsInIfCondition = False,
       bo_IsInArraySubscript = False, bo_CountOperations = 1,
       bo_rhs_ContainsVectorizableOp = False, bo_rhs_ContainsArrayAccess = False,
       bo_lhs_ContainsArrayAccess = False \<rparr>"

definition accumulator_update :: BinaryOperator where
  "accumulator_update =
     \<lparr> bo_stmt = 20, bo_opcode = BO_AddAssign, bo_line = 2,
       bo_subtree = [20..<36],
       bo_parents = [ParentOther], bo_IsInLoopCondition = False, bo_IsInIfCondition = False,
       bo_IsInArraySubscript = False, bo_CountOperations = 2,
       bo_rhs_ContainsVectorizableOp = True, bo_rhs_ContainsArrayAccess = True,
       bo_lhs_ContainsArrayAccess = False \<rparr>"

definition accumulator_product :: BinaryOperator where
  "accumulator_product =
     \<lparr> bo_stmt = 22, bo_opcode = BO_Mul, bo_line = 2,
       bo_subtree = [22..<36],
       bo_parents = [ParentBinaryOperator BO_AddAssign], bo_IsInLoopCondition = False,
       bo_IsInIfCondition = False, bo_IsInArraySubscript = False, bo_CountOperations = 1,
       bo_rhs_ContainsVectorizableOp = False, bo_rhs_ContainsArrayAccess = True,
       bo_lhs_ContainsArrayAccess = True \<rparr>"

definition accumulator_anchors :: "AnchorPoint list" where
  "accumulator_anchors =
     FindAnchorsInFunction 1
       [(1, False, accumulator_cond), (1, False, accumulator_update), (1, False, accumulator_product)]"

lemma ComputeAnchorScore_formula:
  "ComputeAnchorScore a =
     100 * anchor_loopDepth a + spec_op_bonus (anchor_opCode a) + spec_kind_bonus (expectedKind a)"
  by (cases "anchor_opCode a")
     (simp_all add: ComputeAnchorScore_def spec_op_bonus_def spec_kind_bonus_def)

lemma accumulator_anchors_eval:
  "accumulator_anchors =
     [\<lparr> stmt = 20, func = Some 1, expectedKind = BinaryOp, anchor_opCode = Add,
        anchor_loopDepth = 1, isInLoop = True, score = 160, anchor_sourceLine = 2 \<rparr>]"
  by (simp add: accumulator_anchors_def FindAnchorsInFunction_def visit_at_def
      VisitBinaryOperator_def ProcessNonAssignment_def CheckTopLevelExpression_def
      AddAnchor_def MarkSubExprsAsAdded_def IsSimpleArrayIndexExpr_def
      IsVectorizableBinaryOp_def IsComparisonOp_def is_vectorizable_parent_def
      accumulator_cond_def accumulator_update_def accumulator_product_def
      ComputeAnchorScore_def Let_def)

text \<open>
  C1, as stated: the anchor of the simple-accumulator scenario scores 230. It does not: the
  visitor gives every anchor the kind \<^verbatim>\<open>BinaryOp\<close>, so no kind bonus is added.
\<close>

theorem accumulator_score_not_230:
  "map score accumulator_anchors \<noteq> [230]"
  by (simp add: accumulator_anchors_eval)

text \<open>
  C1, amended: \<^verbatim>\<open>ComputeAnchorScore\<close> is \<open>100 * loop_depth + op_bonus + kind_bonus\<close> with the
  bonuses of the specification, and in the simple-accumulator scenario the one anchor is the
  statement \<^verbatim>\<open>sum += a[i] * b[i]\<close> at loop depth 1 with opcode \<^verbatim>\<open>Add\<close> and expected kind
  \<^verbatim>\<open>BinaryOp\<close>; its score is 160, that is 100 for the loop level plus 60 for \<^verbatim>\<open>Add\<close> and no
  kind bonus.
\<close>

theorem accumulator_score_160:
  "ComputeAnchorScore a =
     100 * anchor_loopDepth a + spec_op_bonus (anchor_opCode a) + spec_kind_bonus (expectedKind a)
   \<and> map stmt accumulator_anchors = [20]
   \<and> map expectedKind accumulator_anchors = [BinaryOp]
   \<and> map anchor_opCode accumulator_anchors = [Add]
   \<and> map anchor_loopDepth accumulator_anchors = [1]
   \<and> map score accumulator_anchors = [160]
   \<and> map ComputeAnchorScore accumulator_anchors = [100 * 1 + 60 + 0]"
  by (simp add: accumulator_anchors_eval ComputeAnchorScore_formula spec_op_bonus_def
      spec_kind_bonus_def)

section \<open>Statements and declarations as the analyses see them\<close>

text \<open>
  The analyses look at a \<^verbatim>\<open>clang::Stmt\<close> through \<^verbatim>\<open>dyn_cast\<close> and a few accessors. A
  declaration is its address, its name and whether it is a \<^verbatim>\<open>VarDecl\<close>; a statement is a
  declaration statement with its declarations, a binary or unary operator with its opcode and
  the declaration its left-hand side (its operand) refers to when that is a \<^verbatim>\<open>DeclRefExpr\<close>
  once parentheses and implicit casts are ignored, or anything else.
\<close>

record Decl =
  decl_ptr :: nat
  decl_name :: string
  decl_isVarDecl :: bool

datatype UnaryOperatorKind =
    UO_PostInc | UO_PostDec | UO_PreInc | UO_PreDec
  | UO_AddrOf | UO_Deref | UO_Plus | UO_Minus | UO_Not | UO_LNot
  | UO_Real | UO_Imag | UO_Extension | UO_Coawait

datatype Stmt =
    DeclStmt "Decl list"
  | BinaryOperatorStmt BinaryOperatorKind "Decl option"
  | UnaryOperatorStmt UnaryOperatorKind "Decl option"
  | OtherStmt

definition isAssignmentOp :: "BinaryOperatorKind \<Rightarrow> bool" where
  "isAssignmentOp op =
     (op \<in> {BO_Assign, BO_MulAssign, BO_DivAssign, BO_RemAssign, BO_AddAssign, BO_SubAssign,
            BO_ShlAssign, BO_ShrAssign, BO_AndAssign, BO_XorAssign, BO_OrAssign})"


text \<open>A \<^verbatim>\<open>std::set<std::string>\<close>: the strings in ascending order, each once.\<close>

definition set_insert :: "'a::linorder \<Rightarrow> 'a list \<Rightarrow> 'a list" where
  "set_insert x xs = (if x \<in> set xs then xs else insort x xs)"

text \<open>\<^verbatim>\<open>CPGContext::GetDefinedVars\<close> with its three helpers.\<close>

definition ExtractDefinedVarFromAssignment ::
  "BinaryOperatorKind \<Rightarrow> Decl option \<Rightarrow> string list \<Rightarrow> string list" where
  "ExtractDefinedVarFromAssignment op lhs vars =
     (if \<not> isAssignmentOp op then vars
      else case lhs of
        None \<Rightarrow> vars
      | Some d \<Rightarrow> if \<not> decl_isVarDecl d then vars else set_insert (decl_name d) vars)"

definition ExtractDefinedVarsFromDeclStmt :: "Decl list \<Rightarrow> string list \<Rightarrow> string list" where
  "ExtractDefinedVarsFromDeclStmt decls vars =
     fold (\<lambda>d vs. if decl_isVarDecl d then set_insert (decl_name d) vs else vs) decls vars"

definition ExtractDefinedVarFromUnaryOp ::
  "UnaryOperatorKind \<Rightarrow> Decl option \<Rightarrow> string list \<Rightarrow> string list" where
  "ExtractDefinedVarFromUnaryOp op sub vars =
     (if op \<noteq> UO_PreInc \<and> op \<noteq> UO_PostInc \<and> op \<noteq> UO_PreDec \<and> op \<noteq> UO_PostDec then vars
      else case sub of
        None \<Rightarrow> vars
      | Some d \<Rightarrow> if \<not> decl_isVarDecl d then vars else set_insert (decl_name d) vars)"

fun GetDefinedVars :: "Stmt \<Rightarrow> string list" where
  "GetDefinedVars (BinaryOperatorStmt op lhs) = ExtractDefinedVarFromAssignment op lhs []"
| "GetDefinedVars (DeclStmt decls) = ExtractDefinedVarsFromDeclStmt decls []"
| "GetDefinedVars (UnaryOperatorStmt op sub) = ExtractDefinedVarFromUnaryOp op sub []"
| "GetDefinedVars OtherStmt = []"

section \<open>Program dependence graph and the data-flow path query\<close>

datatype DepKind = Flow | Anti | Output

record DataDependency =
  sourceStmt :: StmtPtr
  sinkStmt :: StmtPtr
  dep_varName :: string
  dep_kind :: DepKind

record PDGNode =
  pdg_stmt :: StmtPtr
  pdg_func :: "nat option"
  dataDeps :: "DataDependency list"

text \<open>
  The part of \<^verbatim>\<open>CPGContext\<close> the query reads: the statements behind the addresses and
  \<^verbatim>\<open>pdgNodes\<close>, a \<^verbatim>\<open>std::map\<close> from statement address to PDG node.
\<close>

record CPGContext =
  ast :: "StmtPtr \<Rightarrow> Stmt"
  pdgNodes :: "(StmtPtr \<times> PDGNode) list"

text \<open>
  \<^verbatim>\<open>GetUses\<close> walks \<^verbatim>\<open>pdgNodes\<close> in key order and inserts the key of every node that has a
  matching dependency into a \<^verbatim>\<open>std::set\<close> of addresses.
\<close>

definition GetUses :: "CPGContext \<Rightarrow> StmtPtr \<Rightarrow> string \<Rightarrow> StmtPtr list" where
  "GetUses ctx defStmt var =
     fold (\<lambda>(s, node) uses.
             if list_ex (\<lambda>dep. sourceStmt dep = defStmt \<and> dep_varName dep = var) (dataDeps node)
             then set_insert s uses else uses)
          (pdgNodes ctx) []"

type_synonym path_state = "StmtPtr list \<times> StmtPtr set"

definition enqueue_use :: "StmtPtr \<Rightarrow> path_state \<Rightarrow> path_state" where
  "enqueue_use use st =
     (case st of (worklist, visited) \<Rightarrow>
        if use \<notin> visited then (worklist @ [use], insert use visited) else (worklist, visited))"

definition EnqueueVariableUses ::
  "CPGContext \<Rightarrow> StmtPtr \<Rightarrow> string \<Rightarrow> path_state \<Rightarrow> path_state" where
  "EnqueueVariableUses ctx current var st = fold enqueue_use (GetUses ctx current var) st"

definition ProcessDefinedVarsForPath ::
  "CPGContext \<Rightarrow> StmtPtr \<Rightarrow> string \<Rightarrow> path_state \<Rightarrow> path_state" where
  "ProcessDefinedVarsForPath ctx current varName st =
     fold (\<lambda>var st'. if varName \<noteq> [] \<and> var \<noteq> varName then st'
                      else EnqueueVariableUses ctx current var st')
          (GetDefinedVars (ast ctx current)) st"

text \<open>
  The measure of the work-list loop: the length of the work list plus the number of PDG
  statements not yet visited. Popping lowers it by one; a push adds a statement to both the
  work list and the visited set and leaves it unchanged.
\<close>

definition path_measure :: "CPGContext \<Rightarrow> path_state \<Rightarrow> nat" where
  "path_measure ctx st =
     (case st of (worklist, visited) \<Rightarrow>
        length worklist + card (fst ` set (pdgNodes ctx) - visited))"

lemma set_set_insert [simp]: "set (set_insert x xs) = insert x (set xs)"
  by (simp add: set_insert_def set_insort_key insert_absorb)

lemma GetUses_fold_subset:
  "set (fold (\<lambda>(s, node) uses. if P s node then set_insert s uses else uses) m acc)
     \<subseteq> fst ` set m \<union> set acc"
proof (induction m arbitrary: acc)
  case Nil
  then show ?case by simp
next
  case (Cons p m)
  obtain s node where p: "p = (s, node)" by (cases p)
  show ?case
    using Cons [of "if P s node then set_insert s acc else acc"] p by auto
qed

lemma GetUses_subset: "set (GetUses ctx d v) \<subseteq> fst ` set (pdgNodes ctx)"
  using GetUses_fold_subset [of _ "pdgNodes ctx" "[]"] by (simp add: GetUses_def)

lemma enqueue_use_measure:
  "u \<in> fst ` set (pdgNodes ctx) \<Longrightarrow> path_measure ctx (enqueue_use u st) = path_measure ctx st"
proof (cases st)
  case (Pair wl vis)
  assume u: "u \<in> fst ` set (pdgNodes ctx)"
  show ?thesis
  proof (cases "u \<in> vis")
    case True
    then show ?thesis using Pair by (simp add: enqueue_use_def)
  next
    case False
    let ?K = "fst ` set (pdgNodes ctx)"
    have "?K - vis = insert u (?K - insert u vis)" using u False by auto
    moreover have "u \<notin> ?K - insert u vis" by simp
    moreover have "finite (?K - insert u vis)" by simp
    ultimately have "card (?K - vis) = Suc (card (?K - insert u vis))"
      by (metis card_insert_disjoint)
    then show ?thesis using Pair False by (simp add: enqueue_use_def path_measure_def)
  qed
qed

lemma fold_enqueue_measure:
  "set us \<subseteq> fst ` set (pdgNodes ctx) \<Longrightarrow>
   path_measure ctx (fold enqueue_use us st) = path_measure ctx st"
  by (induction us arbitrary: st) (simp_all add: enqueue_use_measure)

lemma EnqueueVariableUses_measure:
  "path_measure ctx (EnqueueVariableUses ctx c v st) = path_measure ctx st"
  by (simp add: EnqueueVariableUses_def fold_enqueue_measure GetUses_subset)

lemma ProcessDefinedVarsForPath_fold_measure:
  "path_measure ctx
     (fold (\<lambda>var st'. if varName \<noteq> [] \<and> var \<noteq> varName then st'
                      else EnqueueVariableUses ctx c var st') vs st) = path_measure ctx st"
  by (induction vs arbitrary: st) (simp_all add: EnqueueVariableUses_measure)

lemma ProcessDefinedVarsForPath_measure:
  "path_measure ctx (ProcessDefinedVarsForPath ctx c varName st) = path_measure ctx st"
  by (simp add: ProcessDefinedVarsForPath_def ProcessDefinedVarsForPath_fold_measure)

function HasDataFlowPath_loop :: "CPGContext \<Rightarrow> StmtPtr \<Rightarrow> string \<Rightarrow> path_state \<Rightarrow> bool" where
  "HasDataFlowPath_loop ctx sink varName (worklist, visited) =
     (case worklist of
        [] \<Rightarrow> False
      | current # rest \<Rightarrow>
          if current = sink then True
          else HasDataFlowPath_loop ctx sink varName
                 (ProcessDefinedVarsForPath ctx current varName (rest, visited)))"
  by pat_completeness auto
termination
proof (relation "measure (\<lambda>(ctx, sink, varName, st). path_measure ctx st)")
  show "wf (measure (\<lambda>(ctx, sink, varName, st). path_measure ctx st))" by simp
next
  fix ctx :: CPGContext and sink :: StmtPtr and varName :: string
    and worklist :: "StmtPtr list" and visited :: "StmtPtr set" and current rest
  assume "worklist = current # rest"
  then show "((ctx, sink, varName, ProcessDefinedVarsForPath ctx current varName (rest, visited)),
              (ctx, sink, varName, (worklist, visited)))
             \<in> measure (\<lambda>(ctx, sink, varName, st). path_measure ctx st)"
    by (simp add: ProcessDefinedVarsForPath_measure) (simp add: path_measure_def)
qed

definition HasDataFlowPath :: "CPGContext \<Rightarrow> StmtPtr \<Rightarrow> StmtPtr \<Rightarrow> string \<Rightarrow> bool" where
  "HasDataFlowPath ctx source sink varName =
     HasDataFlowPath_loop ctx sink varName ([source], {source})"

text \<open>
  C10. For every statement and every variable filter, the empty one included, the query
  from a statement to itself answers true: the source is taken from the work list and
  compared with the sink before any defined variable or use is looked at, so the answer is
  true also for a statement that defines nothing and on an empty dependence graph.
\<close>

theorem HasDataFlowPath_same_statement:
  "HasDataFlowPath ctx s s varName = True
   \<and> HasDataFlowPath (ctx\<lparr> ast := (\<lambda>_. OtherStmt), pdgNodes := [] \<rparr>) s s [] = True"
  by (simp add: HasDataFlowPath_def)

section \<open>Functions and calls as the builders see them\<close>

text \<open>
  A \<^verbatim>\<open>clang::FunctionDecl\<close>: its address, the address of its canonical declaration
  (\<^verbatim>\<open>getCanonicalDecl\<close>), its name, whether it has a body, the names of its parameters, and
  the answer of \<^verbatim>\<open>IsVectorIntrinsicFunction\<close>, which depends on the file the declaration
  comes from. A \<^verbatim>\<open>clang::CallExpr\<close>: its address, its direct callee if it has one, and the
  names \<^verbatim>\<open>GetArgumentName\<close> gives its arguments.
\<close>

record FunctionDecl =
  fd_ptr :: nat
  fd_canonical :: nat
  fd_name :: string
  fd_hasBody :: bool
  fd_params :: "string list"
  fd_isVectorIntrinsic :: bool

record CallExpr =
  ce_ptr :: StmtPtr
  ce_directCallee :: "FunctionDecl option"
  ce_args :: "string list"

section \<open>Compute graph builder: entering a callee\<close>

text \<open>
  The fields of \<^verbatim>\<open>ComputeGraphBuilder\<close> that \<^verbatim>\<open>ProcessCalleeAnalysis\<close> reads or writes.
  \<^verbatim>\<open>currentCallStack\<close> is a set of canonical declarations.
\<close>

record ComputeGraphBuilder =
  maxCallDepth :: int
  enableInterprocedural :: bool
  processedStmts :: "StmtPtr \<rightharpoonup> NodeId"
  currentCallStack :: "nat set"
  currentCallDepth :: int
  currentGraph :: ComputeGraph

definition SetNodeProperty :: "NodeId \<Rightarrow> string \<Rightarrow> string \<Rightarrow> ComputeGraph \<Rightarrow> ComputeGraph" where
  "SetNodeProperty i key val g =
     (case GetNode g i of
        None \<Rightarrow> g
      | Some n \<Rightarrow> g\<lparr> nodes := smap_put i (n\<lparr> properties := (properties n)(key \<mapsto> val) \<rparr>) (nodes g) \<rparr>)"

text \<open>
  \<^verbatim>\<open>ProcessCalleeAnalysis\<close> is the only caller of \<^verbatim>\<open>AnalyzeCalleeBody\<close>. The analysis of the
  body, which lowers the callee's statements and so comes back here for the calls among
  them, is a parameter: whatever it does, it is entered only through the last branch.
\<close>

definition enter_callee :: "FunctionDecl \<Rightarrow> ComputeGraphBuilder \<Rightarrow> ComputeGraphBuilder" where
  "enter_callee callee b =
     b\<lparr> currentCallStack := insert (fd_canonical callee) (currentCallStack b),
        currentCallDepth := currentCallDepth b + 1 \<rparr>"

definition leave_callee :: "FunctionDecl \<Rightarrow> ComputeGraphBuilder \<Rightarrow> ComputeGraphBuilder" where
  "leave_callee callee b =
     b\<lparr> currentCallDepth := currentCallDepth b - 1,
        currentCallStack := currentCallStack b - {fd_canonical callee} \<rparr>"

definition ProcessCalleeAnalysis ::
  "(FunctionDecl \<Rightarrow> NodeId \<Rightarrow> CallExpr \<Rightarrow> ComputeGraphBuilder \<Rightarrow> ComputeGraphBuilder) \<Rightarrow>
   CallExpr option \<Rightarrow> NodeId \<Rightarrow> ComputeGraphBuilder \<Rightarrow> ComputeGraphBuilder" where
  "ProcessCalleeAnalysis AnalyzeCalleeBody callExpr nodeId b =
     (case callExpr of
        None \<Rightarrow> b
      | Some ce \<Rightarrow>
          if \<not> enableInterprocedural b \<or> currentCallDepth b \<ge> maxCallDepth b then b
          else case ce_directCallee ce of
            None \<Rightarrow> b
          | Some callee \<Rightarrow>
              if \<not> fd_hasBody callee then b
              else if fd_isVectorIntrinsic callee
              then b\<lparr> currentGraph :=
                        SetNodeProperty nodeId ''is_intrinsic'' ''true'' (currentGraph b) \<rparr>
              else if fd_canonical callee \<in> currentCallStack b then b
              else leave_callee callee
                     (AnalyzeCalleeBody callee nodeId ce (enter_callee callee b)))"

text \<open>A recursive function \<^verbatim>\<open>fact\<close>, a call to it, and a builder that is inside its body.\<close>

definition fact_decl :: FunctionDecl where
  "fact_decl =
     \<lparr> fd_ptr = 7, fd_canonical = 7, fd_name = ''fact'', fd_hasBody = True,
       fd_params = [''n''], fd_isVectorIntrinsic = False \<rparr>"

definition fact_call :: CallExpr where
  "fact_call = \<lparr> ce_ptr = 40, ce_directCallee = Some fact_decl, ce_args = [''n - 1''] \<rparr>"

definition builder_in_fact :: "int \<Rightarrow> ComputeGraphBuilder" where
  "builder_in_fact depth =
     \<lparr> maxCallDepth = 3, enableInterprocedural = True, processedStmts = Map.empty,
       currentCallStack = {7}, currentCallDepth = depth,
       currentGraph = snd (CreateNode Call (new_ComputeGraph ''f_L3'')) \<rparr>"

text \<open>An analysis that would leave a trace: it adds a node and an edge to the graph.\<close>

definition marking_analysis ::
  "FunctionDecl \<Rightarrow> NodeId \<Rightarrow> CallExpr \<Rightarrow> ComputeGraphBuilder \<Rightarrow> ComputeGraphBuilder" where
  "marking_analysis callee nodeId ce b =
     b\<lparr> currentGraph :=
          snd (AddEdge 2 nodeId ReturnEdge ''return''
                 (snd (CreateNode Return (currentGraph b)))) \<rparr>"

lemma SetNodeProperty_frame:
  "edges (SetNodeProperty i k v g) = edges g"
  "nextNodeId (SetNodeProperty i k v g) = nextNodeId g"
  "outEdges (SetNodeProperty i k v g) = outEdges g"
  "inEdges (SetNodeProperty i k v g) = inEdges g"
  by (simp_all add: SetNodeProperty_def split: option.splits)

lemma smap_put_keys_present:
  "smap_find k m = Some v \<Longrightarrow> map fst (smap_put k v' m) = map fst m"
  by (induction m) (auto split: if_splits)

lemma SetNodeProperty_node_ids: "map fst (nodes (SetNodeProperty i k v g)) = map fst (nodes g)"
  by (simp add: SetNodeProperty_def GetNode_def smap_put_keys_present split: option.splits)

text \<open>
  C8. \<^verbatim>\<open>AnalyzeCalleeBody\<close> is entered from \<^verbatim>\<open>ProcessCalleeAnalysis\<close> only. When the call depth
  has reached \<^verbatim>\<open>maxCallDepth\<close> the builder is left exactly as it was, whatever the analysis
  would do. When the callee's canonical declaration is on the call stack the result does not
  depend on the analysis either, and the graph keeps its edges, its node IDs and its counter:
  no sub-graph and no edge is produced. Otherwise, for a callee with a body that is not a
  vector intrinsic, the analysis runs with the callee pushed and the depth raised by one.
\<close>

theorem ProcessCalleeAnalysis_cutoff:
  "(currentCallDepth b \<ge> maxCallDepth b \<longrightarrow>
      ProcessCalleeAnalysis A callExpr nodeId b = b)
   \<and> (ce_directCallee ce = Some callee \<and> fd_canonical callee \<in> currentCallStack b \<longrightarrow>
        ProcessCalleeAnalysis A (Some ce) nodeId b = ProcessCalleeAnalysis A' (Some ce) nodeId b
        \<and> edges (currentGraph (ProcessCalleeAnalysis A (Some ce) nodeId b)) = edges (currentGraph b)
        \<and> map fst (nodes (currentGraph (ProcessCalleeAnalysis A (Some ce) nodeId b)))
            = map fst (nodes (currentGraph b))
        \<and> nextNodeId (currentGraph (ProcessCalleeAnalysis A (Some ce) nodeId b))
            = nextNodeId (currentGraph b)
        \<and> currentCallStack (ProcessCalleeAnalysis A (Some ce) nodeId b) = currentCallStack b
        \<and> currentCallDepth (ProcessCalleeAnalysis A (Some ce) nodeId b) = currentCallDepth b)
   \<and> (enableInterprocedural b \<and> currentCallDepth b < maxCallDepth b
        \<and> ce_directCallee ce = Some callee \<and> fd_hasBody callee \<and> \<not> fd_isVectorIntrinsic callee
        \<and> fd_canonical callee \<notin> currentCallStack b \<longrightarrow>
        ProcessCalleeAnalysis A (Some ce) nodeId b
          = leave_callee callee (A callee nodeId ce (enter_callee callee b))
        \<and> fd_canonical callee \<in> currentCallStack (enter_callee callee b)
        \<and> currentCallDepth (enter_callee callee b) \<le> maxCallDepth b)"
  by (auto simp: ProcessCalleeAnalysis_def SetNodeProperty_frame SetNodeProperty_node_ids
      enter_callee_def split: option.splits)

theorem ProcessCalleeAnalysis_cutoff_witness:
  "ProcessCalleeAnalysis marking_analysis (Some fact_call) 1 (builder_in_fact 3) = builder_in_fact 3
   \<and> ProcessCalleeAnalysis marking_analysis (Some fact_call) 1 (builder_in_fact 1) = builder_in_fact 1
   \<and> ProcessCalleeAnalysis marking_analysis (Some fact_call) 1
        ((builder_in_fact 1)\<lparr> currentCallStack := {} \<rparr>)
       = leave_callee fact_decl (marking_analysis fact_decl 1 fact_call
           (enter_callee fact_decl ((builder_in_fact 1)\<lparr> currentCallStack := {} \<rparr>)))
   \<and> map fst (edges (currentGraph (ProcessCalleeAnalysis marking_analysis (Some fact_call) 1
        ((builder_in_fact 1)\<lparr> currentCallStack := {} \<rparr>)))) = [0]"
proof -
  note cut = ProcessCalleeAnalysis_cutoff
  have a: "ProcessCalleeAnalysis marking_analysis (Some fact_call) 1 (builder_in_fact 3)
           = builder_in_fact 3"
    using cut [of "builder_in_fact 3" marking_analysis "Some fact_call" 1]
    by (simp add: builder_in_fact_def)
  have "ProcessCalleeAnalysis marking_analysis (Some fact_call) 1 (builder_in_fact 1)
        = ProcessCalleeAnalysis (\<lambda>_ _ _ b. b) (Some fact_call) 1 (builder_in_fact 1)"
    using cut [of "builder_in_fact 1" marking_analysis _ 1 fact_call fact_decl "\<lambda>_ _ _ b. b"]
    by (simp add: builder_in_fact_def fact_call_def fact_decl_def)
  then have b: "ProcessCalleeAnalysis marking_analysis (Some fact_call) 1 (builder_in_fact 1)
        = builder_in_fact 1"
    by (simp add: ProcessCalleeAnalysis_def builder_in_fact_def fact_call_def fact_decl_def)
  let ?b = "(builder_in_fact 1)\<lparr> currentCallStack := {} \<rparr>"
  have c: "ProcessCalleeAnalysis marking_analysis (Some fact_call) 1 ?b
       = leave_callee fact_decl (marking_analysis fact_decl 1 fact_call (enter_callee fact_decl ?b))"
    using cut [of ?b marking_analysis _ 1 fact_call fact_decl]
    by (simp add: builder_in_fact_def fact_call_def fact_decl_def)
  have d: "map fst (edges (currentGraph (ProcessCalleeAnalysis marking_analysis (Some fact_call) 1 ?b))) = [0]"
    unfolding c
    by (simp add: leave_callee_def marking_analysis_def enter_callee_def builder_in_fact_def
        AddEdge_def CreateNode_def new_ComputeGraph_def Let_def UpdateAdjacencyLists_def
        push_output_def push_input_def GetNode_def new_ComputeNode_def new_ComputeEdge_def)
  from a b c d show ?thesis by simp
qed

section \<open>Interprocedural control flow graph: parameter nodes\<close>

datatype ICFGNodeKind =
    Entry | Exit | Statement | CallSite | ReturnSite
  | FormalIn | FormalOut | ActualIn | ActualOut

datatype ICFGEdgeKind =
    Intraprocedural | CallE | ReturnE | ParamIn | ParamOut | TrueE | FalseE | Unconditional

text \<open>
  An \<^verbatim>\<open>ICFGNode\<close> lives on the heap and is referred to by pointer from the successor and
  predecessor lists of other nodes. The heap is a list of nodes and a pointer is an index
  into it; \<^verbatim>\<open>paramIndex\<close> is a C \<^verbatim>\<open>int\<close>, \<open>-1\<close> when unset.
\<close>

type_synonym ICFGNodePtr = nat

record ICFGNode =
  icfg_kind :: ICFGNodeKind
  icfg_stmt :: "StmtPtr option"
  icfg_func :: "nat option"
  callExpr :: "StmtPtr option"
  icfg_callee :: "nat option"
  paramIndex :: int
  paramName :: string
  successors :: "(ICFGNodePtr \<times> ICFGEdgeKind) list"
  predecessors :: "(ICFGNodePtr \<times> ICFGEdgeKind) list"

definition new_ICFGNode :: "ICFGNodeKind \<Rightarrow> ICFGNode" where
  "new_ICFGNode k =
     \<lparr> icfg_kind = k, icfg_stmt = None, icfg_func = None, callExpr = None, icfg_callee = None,
       paramIndex = -1, paramName = [], successors = [], predecessors = [] \<rparr>"

text \<open>
  The ICFG members of \<^verbatim>\<open>CPGContext\<close>. \<^verbatim>\<open>icfgNodes\<close> maps the address of a canonical
  declaration to the nodes of that function, in creation order.
\<close>

record ICFG =
  icfg_heap :: "ICFGNode list"
  icfgNodes :: "nat \<rightharpoonup> ICFGNodePtr list"
  stmtToICFGNode :: "StmtPtr \<rightharpoonup> ICFGNodePtr"
  funcEntries :: "nat \<rightharpoonup> ICFGNodePtr"
  funcExits :: "nat \<rightharpoonup> ICFGNodePtr"

definition CreateICFGNode :: "ICFGNodeKind \<Rightarrow> FunctionDecl \<Rightarrow> ICFG \<Rightarrow> ICFGNodePtr \<times> ICFG" where
  "CreateICFGNode k f st =
     (let nodePtr = length (icfg_heap st);
          node = (new_ICFGNode k)\<lparr> icfg_func := Some (fd_ptr f) \<rparr>
      in (nodePtr, st\<lparr> icfg_heap := icfg_heap st @ [node],
                       icfgNodes := push_at (icfgNodes st) (fd_canonical f) nodePtr \<rparr>))"

text \<open>Writing through a node pointer.\<close>

definition update_node :: "ICFGNodePtr \<Rightarrow> (ICFGNode \<Rightarrow> ICFGNode) \<Rightarrow> ICFG \<Rightarrow> ICFG" where
  "update_node p f st =
     (if p < length (icfg_heap st)
      then st\<lparr> icfg_heap := (icfg_heap st)[p := f (icfg_heap st ! p)] \<rparr> else st)"

definition AddICFGEdge :: "ICFGNodePtr \<Rightarrow> ICFGNodePtr \<Rightarrow> ICFGEdgeKind \<Rightarrow> ICFG \<Rightarrow> ICFG" where
  "AddICFGEdge from to k st =
     update_node to (\<lambda>n. n\<lparr> predecessors := predecessors n @ [(from, k)] \<rparr>)
       (update_node from (\<lambda>n. n\<lparr> successors := successors n @ [(to, k)] \<rparr>) st)"

definition is_FormalIn :: "ICFG \<Rightarrow> int \<Rightarrow> ICFGNodePtr \<Rightarrow> bool" where
  "is_FormalIn st i p =
     (p < length (icfg_heap st) \<and> icfg_kind (icfg_heap st ! p) = FormalIn
      \<and> paramIndex (icfg_heap st ! p) = i)"

definition FindFormalInNode :: "FunctionDecl \<Rightarrow> int \<Rightarrow> ICFG \<Rightarrow> ICFGNodePtr option" where
  "FindFormalInNode callee i st =
     (case icfgNodes st (fd_canonical callee) of
        None \<Rightarrow> None
      | Some ptrs \<Rightarrow> find (is_FormalIn st i) ptrs)"

text \<open>One round of the loop of \<^verbatim>\<open>CreateParameterNodes\<close>, for position \<open>i\<close>.\<close>

definition parameter_position ::
  "FunctionDecl \<Rightarrow> FunctionDecl \<Rightarrow> CallExpr \<Rightarrow> ICFGNodePtr \<Rightarrow> nat \<Rightarrow> ICFG \<Rightarrow> ICFG" where
  "parameter_position caller callee ce callNode i st =
     (let actualName = ce_args ce ! i;
          formalName = fd_params callee ! i;
          (actualIn, st1) = CreateICFGNode ActualIn caller st;
          st2 = update_node actualIn
                  (\<lambda>n. n\<lparr> paramIndex := int i, callExpr := Some (ce_ptr ce),
                          paramName := actualName, icfg_callee := Some (fd_ptr callee) \<rparr>) st1;
          (formalIn, st3) =
             (case FindFormalInNode callee (int i) st2 of
                Some p \<Rightarrow> (p, st2)
              | None \<Rightarrow>
                  (let (p, st') = CreateICFGNode FormalIn callee st2
                   in (p, update_node p
                            (\<lambda>n. n\<lparr> paramIndex := int i, paramName := formalName \<rparr>) st')));
          st4 = AddICFGEdge callNode actualIn ParamIn st3
      in AddICFGEdge actualIn formalIn ParamIn st4)"

definition CreateParameterNodes ::
  "FunctionDecl \<Rightarrow> FunctionDecl \<Rightarrow> CallExpr \<Rightarrow> ICFGNodePtr \<Rightarrow> ICFG \<Rightarrow> ICFG" where
  "CreateParameterNodes caller callee ce callNode st =
     (let numArgs = length (ce_args ce);
          numParams = length (fd_params callee);
          numToProcess = min numArgs numParams
      in fold (parameter_position caller callee ce callNode) [0..<numToProcess] st)"

text \<open>
  \<^verbatim>\<open>LinkSingleCallSite\<close>, from the point where the callee has been resolved: the third
  argument is the canonical declaration of the callee's definition, absent when the call has
  no recorded target or the target has no body.
\<close>

definition LinkSingleCallSite ::
  "FunctionDecl \<Rightarrow> CallExpr \<Rightarrow> FunctionDecl option \<Rightarrow> ICFG \<Rightarrow> ICFG" where
  "LinkSingleCallSite caller ce resolved st =
     (case stmtToICFGNode st (ce_ptr ce) of
        None \<Rightarrow> st
      | Some callNode \<Rightarrow>
         (case resolved of
            None \<Rightarrow> st
          | Some canonicalCallee \<Rightarrow>
             (let (returnNode, st1) = CreateICFGNode ReturnSite caller st;
                  st2 = update_node returnNode
                          (\<lambda>n. n\<lparr> callExpr := Some (ce_ptr ce),
                                  icfg_callee := Some (fd_ptr canonicalCallee) \<rparr>) st1;
                  st3 = (case funcEntries st2 (fd_canonical canonicalCallee) of
                           None \<Rightarrow> st2
                         | Some calleeEntry \<Rightarrow> AddICFGEdge callNode calleeEntry CallE st2);
                  st4 = (case funcExits st3 (fd_canonical canonicalCallee) of
                           None \<Rightarrow> st3
                         | Some calleeExit \<Rightarrow> AddICFGEdge calleeExit returnNode ReturnE st3)
              in CreateParameterNodes caller canonicalCallee ce callNode st4)))"

definition LinkCallSites ::
  "(FunctionDecl \<times> CallExpr \<times> FunctionDecl option) list \<Rightarrow> ICFG \<Rightarrow> ICFG" where
  "LinkCallSites calls st =
     fold (\<lambda>(caller, ce, resolved). LinkSingleCallSite caller ce resolved) calls st"

text \<open>
  The nodes of one function seen as (kind, parameter index) pairs, the number of nodes of a
  function with a given kind, and the invariants: every pointer in \<^verbatim>\<open>icfgNodes\<close> is valid,
  and no function has two \<^verbatim>\<open>FormalIn\<close> nodes for the same parameter index.
\<close>

definition nodes_of :: "ICFG \<Rightarrow> nat \<Rightarrow> ICFGNodePtr list" where
  "nodes_of st key = (case icfgNodes st key of None \<Rightarrow> [] | Some ptrs \<Rightarrow> ptrs)"

definition tags_of :: "ICFG \<Rightarrow> nat \<Rightarrow> (ICFGNodeKind \<times> int) list" where
  "tags_of st key =
     map (\<lambda>p. (icfg_kind (icfg_heap st ! p), paramIndex (icfg_heap st ! p))) (nodes_of st key)"

definition count_kind :: "ICFG \<Rightarrow> nat \<Rightarrow> ICFGNodeKind \<Rightarrow> nat" where
  "count_kind st key k = length (filter (\<lambda>t. fst t = k) (tags_of st key))"

definition pointers_valid :: "ICFG \<Rightarrow> bool" where
  "pointers_valid st = (\<forall>key. list_all (\<lambda>p. p < length (icfg_heap st)) (nodes_of st key))"

definition FormalIn_unique :: "ICFG \<Rightarrow> bool" where
  "FormalIn_unique st = (\<forall>key i. count_list (tags_of st key) (FormalIn, i) \<le> 1)"

definition tag_at :: "ICFG \<Rightarrow> ICFGNodePtr \<Rightarrow> ICFGNodeKind \<times> int" where
  "tag_at st p = (icfg_kind (icfg_heap st ! p), paramIndex (icfg_heap st ! p))"

lemma tags_of_tag_at: "tags_of st key = map (tag_at st) (nodes_of st key)"
  by (simp add: tags_of_def tag_at_def)

lemma update_node_frame [simp]:
  "icfgNodes (update_node p f st) = icfgNodes st"
  "length (icfg_heap (update_node p f st)) = length (icfg_heap st)"
  "nodes_of (update_node p f st) key = nodes_of st key"
  "stmtToICFGNode (update_node p f st) = stmtToICFGNode st"
  "funcEntries (update_node p f st) = funcEntries st"
  "funcExits (update_node p f st) = funcExits st"
  by (simp_all add: update_node_def nodes_of_def)

lemma update_node_pointers_valid [simp]:
  "pointers_valid (update_node p f st) = pointers_valid st"
  by (simp add: pointers_valid_def)

lemma tag_at_update_node_other:
  "q \<noteq> p \<Longrightarrow> tag_at (update_node p f st) q = tag_at st q"
  by (simp add: tag_at_def update_node_def)

lemma tag_at_update_node_same_tag:
  "icfg_kind (f (icfg_heap st ! p)) = icfg_kind (icfg_heap st ! p) \<Longrightarrow>
   paramIndex (f (icfg_heap st ! p)) = paramIndex (icfg_heap st ! p) \<Longrightarrow>
   tag_at (update_node p f st) q = tag_at st q"
  by (cases "q = p") (simp_all add: tag_at_def update_node_def)

lemma AddICFGEdge_frame [simp]:
  "icfgNodes (AddICFGEdge a b k st) = icfgNodes st"
  "length (icfg_heap (AddICFGEdge a b k st)) = length (icfg_heap st)"
  "nodes_of (AddICFGEdge a b k st) key = nodes_of st key"
  "pointers_valid (AddICFGEdge a b k st) = pointers_valid st"
  "stmtToICFGNode (AddICFGEdge a b k st) = stmtToICFGNode st"
  "funcEntries (AddICFGEdge a b k st) = funcEntries st"
  "funcExits (AddICFGEdge a b k st) = funcExits st"
  by (simp_all add: AddICFGEdge_def)

lemma tag_at_AddICFGEdge [simp]: "tag_at (AddICFGEdge a b k st) q = tag_at st q"
  by (simp add: AddICFGEdge_def tag_at_update_node_same_tag)

lemma tags_of_AddICFGEdge [simp]: "tags_of (AddICFGEdge a b k st) key = tags_of st key"
  by (simp add: tags_of_tag_at)

lemma nodes_of_push_at:
  "nodes_of (st\<lparr> icfg_heap := h, icfgNodes := push_at (icfgNodes st) c p \<rparr>) key
     = nodes_of st key @ (if key = c then [p] else [])"
  by (simp add: nodes_of_def push_at_def)

text \<open>A node that is created and then has its parameter index written.\<close>

lemma create_and_set:
  assumes v: "pointers_valid st"
    and c: "CreateICFGNode k f st = (p, st1)"
    and g: "\<And>n. icfg_kind (g n) = icfg_kind n"
    and i: "paramIndex (g ((new_ICFGNode k)\<lparr> icfg_func := Some (fd_ptr f) \<rparr>)) = i"
  shows "p = length (icfg_heap st)"
    and "length (icfg_heap (update_node p g st1)) = Suc (length (icfg_heap st))"
    and "nodes_of (update_node p g st1) key
           = nodes_of st key @ (if key = fd_canonical f then [p] else [])"
    and "tags_of (update_node p g st1) key
           = tags_of st key @ (if key = fd_canonical f then [(k, i)] else [])"
    and "pointers_valid (update_node p g st1)"
    and "stmtToICFGNode (update_node p g st1) = stmtToICFGNode st"
    and "funcEntries (update_node p g st1) = funcEntries st"
    and "funcExits (update_node p g st1) = funcExits st"
proof -
  from c have p: "p = length (icfg_heap st)"
    and st1: "st1 = st\<lparr> icfg_heap := icfg_heap st @ [(new_ICFGNode k)\<lparr> icfg_func := Some (fd_ptr f) \<rparr>],
                        icfgNodes := push_at (icfgNodes st) (fd_canonical f) p \<rparr>"
    by (auto simp: CreateICFGNode_def Let_def)
  show "p = length (icfg_heap st)" by (rule p)
  show "length (icfg_heap (update_node p g st1)) = Suc (length (icfg_heap st))"
    by (simp add: st1)
  have n: "nodes_of st1 key = nodes_of st key @ (if key = fd_canonical f then [p] else [])" for key
    unfolding st1 by (rule nodes_of_push_at)
  then show "nodes_of (update_node p g st1) key
           = nodes_of st key @ (if key = fd_canonical f then [p] else [])"
    by simp
  have old: "q < length (icfg_heap st) \<Longrightarrow> tag_at (update_node p g st1) q = tag_at st q" for q
    using p by (simp add: tag_at_def update_node_def st1 nth_append)
  have new: "tag_at (update_node p g st1) p = (k, i)"
    using p g i by (simp add: tag_at_def update_node_def st1) (simp add: new_ICFGNode_def)
  have "map (tag_at (update_node p g st1)) (nodes_of st key) = map (tag_at st) (nodes_of st key)"
    using v old by (auto simp: pointers_valid_def list_all_iff)
  then show "tags_of (update_node p g st1) key
           = tags_of st key @ (if key = fd_canonical f then [(k, i)] else [])"
    using n [of key] new by (simp add: tags_of_tag_at)
  have len1: "length (icfg_heap st1) = Suc (length (icfg_heap st))" by (simp add: st1)
  show "pointers_valid (update_node p g st1)"
    using v p by (auto simp: pointers_valid_def n len1 list_all_iff less_Suc_eq)
  show "stmtToICFGNode (update_node p g st1) = stmtToICFGNode st"
    "funcEntries (update_node p g st1) = funcEntries st"
    "funcExits (update_node p g st1) = funcExits st"
    by (simp_all add: st1)
qed

lemma FindFormalInNode_None:
  assumes "pointers_valid st"
  shows "FindFormalInNode callee i st = None
         \<longleftrightarrow> (FormalIn, i) \<notin> set (tags_of st (fd_canonical callee))"
proof -
  have "is_FormalIn st i p \<longleftrightarrow> tag_at st p = (FormalIn, i)"
    if "p \<in> set (nodes_of st (fd_canonical callee))" for p
    using that assms by (auto simp: is_FormalIn_def tag_at_def pointers_valid_def list_all_iff)
  then show ?thesis
    by (auto simp: FindFormalInNode_def nodes_of_def tags_of_tag_at find_None_iff image_iff
        split: option.splits)
qed

lemma parameter_position_spec:
  assumes v: "pointers_valid st"
  shows "pointers_valid (parameter_position caller callee ce callNode i st) \<and>
      tags_of (parameter_position caller callee ce callNode i st) key
           = tags_of st key
             @ (if key = fd_canonical caller then [(ActualIn, int i)] else [])
             @ (if key = fd_canonical callee
                   \<and> (FormalIn, int i) \<notin> set (tags_of st (fd_canonical callee))
                then [(FormalIn, int i)] else []) \<and>
      (\<exists>new. nodes_of (parameter_position caller callee ce callNode i st) key
                  = nodes_of st key @ new
               \<and> list_all (\<lambda>p. length (icfg_heap st) \<le> p) new) \<and>
      length (icfg_heap st) \<le> length (icfg_heap (parameter_position caller callee ce callNode i st)) \<and>
      stmtToICFGNode (parameter_position caller callee ce callNode i st) = stmtToICFGNode st \<and>
      funcEntries (parameter_position caller callee ce callNode i st) = funcEntries st \<and>
      funcExits (parameter_position caller callee ce callNode i st) = funcExits st"
proof -
  let ?ga = "\<lambda>n. n\<lparr> paramIndex := int i, callExpr := Some (ce_ptr ce),
                       paramName := ce_args ce ! i, icfg_callee := Some (fd_ptr callee) \<rparr>"
  let ?gf = "\<lambda>n. n\<lparr> paramIndex := int i, paramName := fd_params callee ! i \<rparr>"
  have ga: "\<And>n. icfg_kind (?ga n) = icfg_kind n"
    "paramIndex (?ga ((new_ICFGNode ActualIn)\<lparr> icfg_func := Some (fd_ptr caller) \<rparr>)) = int i"
    by simp_all
  have gf: "\<And>n. icfg_kind (?gf n) = icfg_kind n"
    "paramIndex (?gf ((new_ICFGNode FormalIn)\<lparr> icfg_func := Some (fd_ptr callee) \<rparr>)) = int i"
    by simp_all
  obtain a st1 where c1: "CreateICFGNode ActualIn caller st = (a, st1)"
    by (cases "CreateICFGNode ActualIn caller st")
  define st2 where "st2 = update_node a ?ga st1"
  note A = create_and_set [OF v c1 ga, folded st2_def]
  have v2: "pointers_valid st2" by (rule A(5))
  have mem: "(FormalIn, int i) \<in> set (tags_of st2 (fd_canonical callee))
             \<longleftrightarrow> (FormalIn, int i) \<in> set (tags_of st (fd_canonical callee))"
    by (simp add: A(4))
  show ?thesis
  proof (cases "FindFormalInNode callee (int i) st2")
    case (Some fp)
    then have in_tags: "(FormalIn, int i) \<in> set (tags_of st (fd_canonical callee))"
      using FindFormalInNode_None [OF v2, of callee "int i"] mem by simp
    have eq: "parameter_position caller callee ce callNode i st
          = AddICFGEdge a fp ParamIn (AddICFGEdge callNode a ParamIn st2)"
      using c1 Some by (simp add: parameter_position_def Let_def st2_def)
    show ?thesis
      unfolding eq using v2 in_tags A(1) by (simp add: A(2,3,4,6,7,8))
  next
    case None
    then have not_in: "(FormalIn, int i) \<notin> set (tags_of st (fd_canonical callee))"
      using FindFormalInNode_None [OF v2, of callee "int i"] mem by simp
    obtain fp st3 where c2: "CreateICFGNode FormalIn callee st2 = (fp, st3)"
      by (cases "CreateICFGNode FormalIn callee st2")
    define st4 where "st4 = update_node fp ?gf st3"
    note F = create_and_set [OF v2 c2 gf, folded st4_def]
    have eq: "parameter_position caller callee ce callNode i st
          = AddICFGEdge a fp ParamIn (AddICFGEdge callNode a ParamIn st4)"
      using c1 c2 None by (simp add: parameter_position_def Let_def st2_def st4_def)
    show ?thesis
      unfolding eq using F(5) not_in A(1) F(1)
      by (simp add: A(2,3,4,6,7,8) F(2,3,4,6,7,8))
  qed
qed

lemma parameter_position_unique:
  assumes v: "pointers_valid st" and u: "FormalIn_unique st"
  shows "FormalIn_unique (parameter_position caller callee ce callNode i st)"
  unfolding FormalIn_unique_def
proof (intro allI)
  fix key j
  note T = parameter_position_spec [OF v, of caller callee ce callNode i key, THEN conjunct2, THEN conjunct1]
  from u have old: "count_list (tags_of st key) (FormalIn, j) \<le> 1"
    by (simp add: FormalIn_unique_def)
  show "count_list (tags_of (parameter_position caller callee ce callNode i st) key) (FormalIn, j) \<le> 1"
  proof (cases "key = fd_canonical callee \<and> (FormalIn, int i) \<notin> set (tags_of st (fd_canonical callee)) \<and> j = int i")
    case True
    then have "count_list (tags_of st key) (FormalIn, j) = 0"
      by (simp add: count_list_0_iff)
    with True show ?thesis unfolding T by simp
  next
    case False
    with old show ?thesis unfolding T by auto
  qed
qed

lemma parameter_position_ActualIn:
  assumes v: "pointers_valid st"
  shows "count_kind (parameter_position caller callee ce callNode i st) key ActualIn
         = count_kind st key ActualIn + (if key = fd_canonical caller then 1 else 0)"
  unfolding count_kind_def
    parameter_position_spec [OF v, of caller callee ce callNode i key, THEN conjunct2, THEN conjunct1]
  by simp

lemma fold_parameter_position:
  assumes "pointers_valid st" "FormalIn_unique st"
  shows "pointers_valid (fold (parameter_position caller callee ce callNode) js st)
     \<and> FormalIn_unique (fold (parameter_position caller callee ce callNode) js st)
     \<and> count_kind (fold (parameter_position caller callee ce callNode) js st) key ActualIn
          = count_kind st key ActualIn + (if key = fd_canonical caller then length js else 0)
     \<and> (\<exists>new. nodes_of (fold (parameter_position caller callee ce callNode) js st) key
                  = nodes_of st key @ new
               \<and> list_all (\<lambda>p. length (icfg_heap st) \<le> p) new)
     \<and> length (icfg_heap st)
          \<le> length (icfg_heap (fold (parameter_position caller callee ce callNode) js st))
     \<and> stmtToICFGNode (fold (parameter_position caller callee ce callNode) js st) = stmtToICFGNode st
     \<and> funcEntries (fold (parameter_position caller callee ce callNode) js st) = funcEntries st
     \<and> funcExits (fold (parameter_position caller callee ce callNode) js st) = funcExits st"
  using assms
proof (induction js arbitrary: st)
  case Nil
  then show ?case by simp
next
  case (Cons j js)
  let ?st1 = "parameter_position caller callee ce callNode j st"
  note S = parameter_position_spec [OF Cons.prems(1), of caller callee ce callNode j key]
  have v1: "pointers_valid ?st1" using S by simp
  have u1: "FormalIn_unique ?st1" using Cons.prems by (rule parameter_position_unique)
  note IH = Cons.IH [OF v1 u1]
  from S obtain new1 where n1: "nodes_of ?st1 key = nodes_of st key @ new1"
    "list_all (\<lambda>p. length (icfg_heap st) \<le> p) new1" by blast
  from IH obtain new2 where n2:
    "nodes_of (fold (parameter_position caller callee ce callNode) js ?st1) key = nodes_of ?st1 key @ new2"
    "list_all (\<lambda>p. length (icfg_heap ?st1) \<le> p) new2" by blast
  have le: "length (icfg_heap st) \<le> length (icfg_heap ?st1)" using S by simp
  have "list_all (\<lambda>p. length (icfg_heap st) \<le> p) (new1 @ new2)"
    using n1(2) n2(2) le by (auto simp: list_all_iff)
  then have ex: "\<exists>new. nodes_of (fold (parameter_position caller callee ce callNode) (j # js) st) key
                  = nodes_of st key @ new
               \<and> list_all (\<lambda>p. length (icfg_heap st) \<le> p) new"
    using n1(1) n2(1) by (intro exI [of _ "new1 @ new2"]) simp
  have cnt: "count_kind (fold (parameter_position caller callee ce callNode) (j # js) st) key ActualIn
          = count_kind st key ActualIn + (if key = fd_canonical caller then length (j # js) else 0)"
    using IH parameter_position_ActualIn [OF Cons.prems(1), of caller callee ce callNode j key]
    by simp
  from IH S ex cnt le show ?case by simp
qed

lemma CreateParameterNodes_spec:
  assumes "pointers_valid st" "FormalIn_unique st"
  shows "pointers_valid (CreateParameterNodes caller callee ce callNode st)
     \<and> FormalIn_unique (CreateParameterNodes caller callee ce callNode st)
     \<and> count_kind (CreateParameterNodes caller callee ce callNode st) key ActualIn
          = count_kind st key ActualIn
            + (if key = fd_canonical caller
               then min (length (ce_args ce)) (length (fd_params callee)) else 0)
     \<and> (\<exists>new. nodes_of (CreateParameterNodes caller callee ce callNode st) key
                  = nodes_of st key @ new
               \<and> list_all (\<lambda>p. length (icfg_heap st) \<le> p) new)"
  using fold_parameter_position [OF assms, of caller callee ce callNode
      "[0..<min (length (ce_args ce)) (length (fd_params callee))]" key]
  by (simp add: CreateParameterNodes_def Let_def)

lemma LinkSingleCallSite_invariant:
  assumes v: "pointers_valid st" and u: "FormalIn_unique st"
  shows "pointers_valid (LinkSingleCallSite caller ce resolved st)
     \<and> FormalIn_unique (LinkSingleCallSite caller ce resolved st)"
proof (cases "stmtToICFGNode st (ce_ptr ce)")
  case None
  then show ?thesis using v u by (simp add: LinkSingleCallSite_def)
next
  case (Some callNode)
  show ?thesis
  proof (cases resolved)
    case None
    then show ?thesis using v u Some by (simp add: LinkSingleCallSite_def)
  next
    case (Some canonicalCallee)
    let ?g = "\<lambda>n. n\<lparr> callExpr := Some (ce_ptr ce), icfg_callee := Some (fd_ptr canonicalCallee) \<rparr>"
    obtain r st1 where c: "CreateICFGNode ReturnSite caller st = (r, st1)"
      by (cases "CreateICFGNode ReturnSite caller st")
    define st2 where "st2 = update_node r ?g st1"
    have g: "\<And>n. icfg_kind (?g n) = icfg_kind n"
      "paramIndex (?g ((new_ICFGNode ReturnSite)\<lparr> icfg_func := Some (fd_ptr caller) \<rparr>)) = -1"
      by (simp_all add: new_ICFGNode_def)
    note R = create_and_set [OF v c g, folded st2_def]
    have v2: "pointers_valid st2" by (rule R(5))
    have u2: "FormalIn_unique st2"
      using u by (simp add: FormalIn_unique_def R(4))
    define st3 where "st3 = (case funcEntries st2 (fd_canonical canonicalCallee) of
                           None \<Rightarrow> st2
                         | Some calleeEntry \<Rightarrow> AddICFGEdge callNode calleeEntry CallE st2)"
    define st4 where "st4 = (case funcExits st3 (fd_canonical canonicalCallee) of
                           None \<Rightarrow> st3
                         | Some calleeExit \<Rightarrow> AddICFGEdge calleeExit r ReturnE st3)"
    have v3: "pointers_valid st3" "FormalIn_unique st3"
      using v2 u2 by (simp_all add: st3_def FormalIn_unique_def split: option.splits)
    then have v4: "pointers_valid st4" "FormalIn_unique st4"
      by (simp_all add: st4_def FormalIn_unique_def split: option.splits)
    have "LinkSingleCallSite caller ce resolved st
          = CreateParameterNodes caller canonicalCallee ce callNode st4"
      using \<open>stmtToICFGNode st (ce_ptr ce) = Some callNode\<close> Some c
      by (simp add: LinkSingleCallSite_def Let_def st2_def st3_def st4_def split: option.splits)
    then show ?thesis
      using CreateParameterNodes_spec [OF v4, of caller canonicalCallee ce callNode] by simp
  qed
qed

lemma LinkCallSites_invariant:
  "pointers_valid st \<Longrightarrow> FormalIn_unique st \<Longrightarrow>
   pointers_valid (LinkCallSites calls st) \<and> FormalIn_unique (LinkCallSites calls st)"
proof (induction calls arbitrary: st)
  case Nil
  then show ?case by (simp add: LinkCallSites_def)
next
  case (Cons c calls)
  obtain caller ce resolved where c: "c = (caller, ce, resolved)" by (cases c)
  from Cons.prems have "pointers_valid (LinkSingleCallSite caller ce resolved st)
     \<and> FormalIn_unique (LinkSingleCallSite caller ce resolved st)"
    by (rule LinkSingleCallSite_invariant)
  then have "pointers_valid (LinkCallSites calls (LinkSingleCallSite caller ce resolved st))
     \<and> FormalIn_unique (LinkCallSites calls (LinkSingleCallSite caller ce resolved st))"
    using Cons.IH by blast
  then show ?case by (simp add: LinkCallSites_def c)
qed

text \<open>
  C6. On an ICFG whose node pointers are valid and in which no function has two
  \<^verbatim>\<open>FormalIn\<close> nodes for one parameter index (the ICFG before any call site is linked has no
  \<^verbatim>\<open>FormalIn\<close> node at all), \<^verbatim>\<open>CreateParameterNodes\<close> adds exactly \<open>min(numArgs, numParams)\<close>
  \<^verbatim>\<open>ActualIn\<close> nodes to the caller, all of them newly allocated, and afterwards still no
  function has two \<^verbatim>\<open>FormalIn\<close> nodes for one parameter index; the same holds after linking
  any list of call sites.
\<close>

theorem CreateParameterNodes_ActualIn_FormalIn:
  assumes "pointers_valid st" and "FormalIn_unique st"
  shows "count_kind (CreateParameterNodes caller callee ce callNode st) (fd_canonical caller) ActualIn
           = count_kind st (fd_canonical caller) ActualIn
             + min (length (ce_args ce)) (length (fd_params callee))
     \<and> (\<exists>new. nodes_of (CreateParameterNodes caller callee ce callNode st) (fd_canonical caller)
                  = nodes_of st (fd_canonical caller) @ new
               \<and> list_all (\<lambda>p. length (icfg_heap st) \<le> p) new)
     \<and> FormalIn_unique (CreateParameterNodes caller callee ce callNode st)
     \<and> FormalIn_unique (LinkCallSites calls st)"
  using CreateParameterNodes_spec [OF assms, of caller callee ce callNode "fd_canonical caller"]
    LinkCallSites_invariant [OF assms, of calls]
  by simp

text \<open>
  Two calls \<^verbatim>\<open>square(i)\<close> and \<^verbatim>\<open>square(j)\<close> in a function \<^verbatim>\<open>f\<close>, on an ICFG that so far
  holds the two call-site nodes.
\<close>

definition f_decl :: FunctionDecl where
  "f_decl = \<lparr> fd_ptr = 1, fd_canonical = 1, fd_name = ''f'', fd_hasBody = True,
              fd_params = [''out'', ''n''], fd_isVectorIntrinsic = False \<rparr>"

definition square_decl :: FunctionDecl where
  "square_decl = \<lparr> fd_ptr = 2, fd_canonical = 2, fd_name = ''square'', fd_hasBody = True,
                   fd_params = [''x''], fd_isVectorIntrinsic = False \<rparr>"

definition square_call_i :: CallExpr where
  "square_call_i = \<lparr> ce_ptr = 50, ce_directCallee = Some square_decl, ce_args = [''i''] \<rparr>"

definition square_call_j :: CallExpr where
  "square_call_j = \<lparr> ce_ptr = 51, ce_directCallee = Some square_decl, ce_args = [''j''] \<rparr>"

definition two_call_sites :: ICFG where
  "two_call_sites =
     \<lparr> icfg_heap = [(new_ICFGNode CallSite)\<lparr> icfg_stmt := Some 50, icfg_func := Some 1 \<rparr>,
                     (new_ICFGNode CallSite)\<lparr> icfg_stmt := Some 51, icfg_func := Some 1 \<rparr>],
       icfgNodes = [1 \<mapsto> [0, 1]],
       stmtToICFGNode = [50 \<mapsto> 0, 51 \<mapsto> 1],
       funcEntries = Map.empty, funcExits = Map.empty \<rparr>"

definition linked_twice :: ICFG where
  "linked_twice =
     LinkCallSites [(f_decl, square_call_i, Some square_decl),
                    (f_decl, square_call_j, Some square_decl)] two_call_sites"

lemma two_call_sites_ok: "pointers_valid two_call_sites" "FormalIn_unique two_call_sites"
  by (simp_all add: pointers_valid_def FormalIn_unique_def tags_of_def nodes_of_def
      two_call_sites_def new_ICFGNode_def)

lemma linked_twice_eval:
  "tags_of linked_twice 2 = [(FormalIn, 0)]"
  "tags_of linked_twice 1 =
     [(CallSite, -1), (CallSite, -1), (ReturnSite, -1), (ActualIn, 0), (ReturnSite, -1), (ActualIn, 0)]"
  by (simp_all add: linked_twice_def LinkCallSites_def LinkSingleCallSite_def
      CreateParameterNodes_def parameter_position_def CreateICFGNode_def update_node_def
      AddICFGEdge_def FindFormalInNode_def is_FormalIn_def push_at_def Let_def
      tags_of_def nodes_of_def two_call_sites_def new_ICFGNode_def
      f_decl_def square_decl_def square_call_i_def square_call_j_def nth_append)

theorem CreateParameterNodes_ActualIn_FormalIn_witness:
  "count_kind (CreateParameterNodes f_decl square_decl square_call_i 0 two_call_sites) 1 ActualIn = 1
   \<and> FormalIn_unique (CreateParameterNodes f_decl square_decl square_call_i 0 two_call_sites)
   \<and> FormalIn_unique linked_twice
   \<and> count_kind linked_twice 1 ActualIn = 2
   \<and> count_kind linked_twice 2 FormalIn = 1"
proof -
  note T = CreateParameterNodes_ActualIn_FormalIn [OF two_call_sites_ok,
      of f_decl square_decl square_call_i 0
         "[(f_decl, square_call_i, Some square_decl), (f_decl, square_call_j, Some square_decl)]",
      folded linked_twice_def]
  have k: "fd_canonical f_decl = 1" "length (ce_args square_call_i) = 1"
    "length (fd_params square_decl) = 1"
    by (simp_all add: f_decl_def square_call_i_def square_decl_def)
  have z: "count_kind two_call_sites 1 ActualIn = 0"
    by (simp add: count_kind_def tags_of_def nodes_of_def two_call_sites_def new_ICFGNode_def)
  from T have a: "count_kind (CreateParameterNodes f_decl square_decl square_call_i 0 two_call_sites) 1 ActualIn = 1"
    unfolding k z by simp
  from T have b: "FormalIn_unique (CreateParameterNodes f_decl square_decl square_call_i 0 two_call_sites)"
    and c: "FormalIn_unique linked_twice"
    by simp_all
  have d: "count_kind linked_twice 1 ActualIn = 2" "count_kind linked_twice 2 FormalIn = 1"
    using linked_twice_eval by (simp_all add: count_kind_def)
  from a b c d show ?thesis by simp
qed

section \<open>Topological sort\<close>

text \<open>
  \<^verbatim>\<open>ComputeGraph::TopologicalSort\<close>. \<^verbatim>\<open>inDegree\<close> is a \<^verbatim>\<open>std::map<NodeId, int>\<close>, filled from
  the length of each node's \<^verbatim>\<open>inputNodes\<close>; the queue starts with the IDs of degree 0 in key
  order. \<^verbatim>\<open>--inDegree[outId]\<close> goes through \<^verbatim>\<open>operator[]\<close>, so an ID without an entry starts
  from 0.
\<close>

definition init_inDegree :: "ComputeGraph \<Rightarrow> (NodeId \<times> int) list" where
  "init_inDegree g =
     fold (\<lambda>(i, node) inDegree. smap_put i (int (length (inputNodes node))) inDegree) (nodes g) []"

definition initial_queue :: "(NodeId \<times> int) list \<Rightarrow> NodeId list" where
  "initial_queue inDegree = map fst (filter (\<lambda>(i, degree). degree = 0) inDegree)"

definition degree_of :: "(NodeId \<times> int) list \<Rightarrow> NodeId \<Rightarrow> int" where
  "degree_of inDegree i = (case smap_find i inDegree of None \<Rightarrow> 0 | Some d \<Rightarrow> d)"

text \<open>The inner loop over \<^verbatim>\<open>node->outputNodes\<close>.\<close>

fun decrement_outputs ::
  "NodeId list \<Rightarrow> (NodeId \<times> int) list \<times> NodeId list \<Rightarrow> (NodeId \<times> int) list \<times> NodeId list" where
  "decrement_outputs [] (inDegree, queue) = (inDegree, queue)"
| "decrement_outputs (outId # outs) (inDegree, queue) =
     (let d = degree_of inDegree outId - 1
      in decrement_outputs outs
           (smap_put outId d inDegree, if d = 0 then queue @ [outId] else queue))"

definition positive_entries :: "(NodeId \<times> int) list \<Rightarrow> nat" where
  "positive_entries inDegree = length (filter (\<lambda>(i, d). d > 0) inDegree)"

lemma positive_entries_put:
  "positive_entries (smap_put k v m) + (if degree_of m k > 0 then 1 else 0)
     = positive_entries m + (if v > 0 then 1 else 0)"
proof (induction m)
  case Nil
  then show ?case by (simp add: positive_entries_def degree_of_def)
next
  case (Cons p m)
  obtain k' v' where p: "p = (k', v')" by (cases p)
  consider "k = k'" | "k \<noteq> k'" "k < k'" | "k \<noteq> k'" "\<not> k < k'" by blast
  then show ?case
  proof cases
    case 1
    then show ?thesis using p by (simp add: positive_entries_def degree_of_def)
  next
    case 2
    then show ?thesis using p by (simp add: positive_entries_def degree_of_def)
  next
    case 3
    then show ?thesis using p Cons.IH by (simp add: positive_entries_def degree_of_def)
  qed
qed

lemma decrement_outputs_measure:
  "decrement_outputs outs (inDegree, queue) = (inDegree', queue') \<Longrightarrow>
   length queue' + positive_entries inDegree' = length queue + positive_entries inDegree"
proof (induction outs arbitrary: inDegree queue)
  case Nil
  then show ?case by simp
next
  case (Cons outId outs)
  let ?d = "degree_of inDegree outId - 1"
  let ?q = "if ?d = 0 then queue @ [outId] else queue"
  from Cons.prems have "decrement_outputs outs (smap_put outId ?d inDegree, ?q) = (inDegree', queue')"
    by (simp add: Let_def)
  from Cons.IH [OF this]
  have "length queue' + positive_entries inDegree'
        = length ?q + positive_entries (smap_put outId ?d inDegree)" .
  also have "\<dots> = length queue + positive_entries inDegree"
    using positive_entries_put [of outId ?d inDegree]
    by (cases "degree_of inDegree outId = 1") (auto split: if_splits)
  finally show ?case .
qed

function topo_loop ::
  "ComputeGraph \<Rightarrow> NodeId list \<times> (NodeId \<times> int) list \<times> ComputeNode list \<Rightarrow> ComputeNode list" where
  "topo_loop g (queue, inDegree, result) =
     (case queue of
        [] \<Rightarrow> result
      | nodeId # rest \<Rightarrow>
          (case GetNode g nodeId of
             None \<Rightarrow> topo_loop g (rest, inDegree, result)
           | Some node \<Rightarrow>
               (case decrement_outputs (outputNodes node) (inDegree, rest) of
                  (inDegree', queue') \<Rightarrow> topo_loop g (queue', inDegree', result @ [node]))))"
  by pat_completeness auto
termination
  apply (relation "measure (\<lambda>(g, queue, inDegree, result). length queue + positive_entries inDegree)")
  apply simp
  apply simp
  subgoal premises prems for g queue inDegree result nodeId rest node inDegree' queue'
    using prems(1) decrement_outputs_measure [OF prems(3) [symmetric]]
    by simp
  done

definition TopologicalSort :: "ComputeGraph \<Rightarrow> ComputeNode list" where
  "TopologicalSort g =
     (let inDegree = init_inDegree g
      in topo_loop g (initial_queue inDegree, inDegree, []))"

section \<open>Canonical signature and de-duplication\<close>

text \<open>\<^verbatim>\<open>static_cast<int>\<close> of the three enumerations: the position in the declaration.\<close>

definition ComputeNodeKind_int :: "ComputeNodeKind \<Rightarrow> nat" where
  "ComputeNodeKind_int k =
     (case k of
        Constant \<Rightarrow> 0 | Variable \<Rightarrow> 1 | Parameter \<Rightarrow> 2
      | BinaryOp \<Rightarrow> 3 | UnaryOp \<Rightarrow> 4 | CompareOp \<Rightarrow> 5
      | Load \<Rightarrow> 6 | Store \<Rightarrow> 7 | ArrayAccess \<Rightarrow> 8 | MemberAccess \<Rightarrow> 9
      | Phi \<Rightarrow> 10 | Select \<Rightarrow> 11 | LoopInduction \<Rightarrow> 12 | Loop \<Rightarrow> 13 | Branch \<Rightarrow> 14
      | Call \<Rightarrow> 15 | IntrinsicCall \<Rightarrow> 16
      | Cast \<Rightarrow> 17 | Return \<Rightarrow> 18 | UnknownKind \<Rightarrow> 19)"

definition OpCode_int :: "OpCode \<Rightarrow> nat" where
  "OpCode_int op =
     (case op of
        Add \<Rightarrow> 0 | Sub \<Rightarrow> 1 | Mul \<Rightarrow> 2 | Div \<Rightarrow> 3 | Mod \<Rightarrow> 4
      | And \<Rightarrow> 5 | Or \<Rightarrow> 6 | Xor \<Rightarrow> 7 | Shl \<Rightarrow> 8 | Shr \<Rightarrow> 9
      | Neg \<Rightarrow> 10 | Not \<Rightarrow> 11 | BitNot \<Rightarrow> 12
      | Lt \<Rightarrow> 13 | Gt \<Rightarrow> 14 | Le \<Rightarrow> 15 | Ge \<Rightarrow> 16 | Eq \<Rightarrow> 17 | Ne \<Rightarrow> 18
      | Assign \<Rightarrow> 19 | UnknownOp \<Rightarrow> 20)"

definition ComputeEdgeKind_int :: "ComputeEdgeKind \<Rightarrow> nat" where
  "ComputeEdgeKind_int k =
     (case k of DataFlow \<Rightarrow> 0 | Control \<Rightarrow> 1 | Memory \<Rightarrow> 2
              | CallEdge \<Rightarrow> 3 | ReturnEdge \<Rightarrow> 4 | LoopCarried \<Rightarrow> 5)"

text \<open>Decimal output of a non-negative number, as \<^verbatim>\<open>operator<<\<close> writes it.\<close>

fun decimal :: "nat \<Rightarrow> string" where
  "decimal n =
     (if n < 10 then [char_of (48 + n)]
      else decimal (n div 10) @ [char_of (48 + n mod 10)])"

definition node_signature :: "ComputeNode \<Rightarrow> string" where
  "node_signature node =
     decimal (ComputeNodeKind_int (kind node))
     @ (if opCode node \<noteq> UnknownOp then '':'' @ decimal (OpCode_int (opCode node)) else [])
     @ '';''"

definition edge_signature :: "ComputeEdge \<Rightarrow> string" where
  "edge_signature edge =
     decimal (unat (sourceId edge)) @ ''->'' @ decimal (unat (targetId edge))
     @ '':'' @ decimal (ComputeEdgeKind_int (edge_kind edge)) @ '';''"

definition ComputeCanonicalSignature :: "ComputeGraph \<Rightarrow> string" where
  "ComputeCanonicalSignature g =
     concat (map node_signature (TopologicalSort g))
     @ ''|''
     @ concat (map (\<lambda>(i, edge). edge_signature edge) (edges g))"

definition GetProperty :: "ComputeGraph \<Rightarrow> string \<Rightarrow> string" where
  "GetProperty g key = (case graph_properties g key of None \<Rightarrow> [] | Some v \<Rightarrow> v)"

definition SetProperty :: "string \<Rightarrow> string \<Rightarrow> ComputeGraph \<Rightarrow> ComputeGraph" where
  "SetProperty key val g = g\<lparr> graph_properties := (graph_properties g)(key \<mapsto> val) \<rparr>"

text \<open>
  \<^verbatim>\<open>ComputeGraphSet::Deduplicate\<close>: one pass over the graphs with the two sets of keys seen so
  far; a graph is kept when neither its anchor key nor its signature has been seen.
\<close>

definition anchorKey :: "ComputeGraph \<Rightarrow> string" where
  "anchorKey g = GetProperty g ''anchor_func'' @ '':'' @ GetProperty g ''anchor_line''"

type_synonym dedup_state = "ComputeGraph list \<times> string set \<times> string set"

definition Deduplicate_step :: "ComputeGraph \<Rightarrow> dedup_state \<Rightarrow> dedup_state" where
  "Deduplicate_step g st =
     (case st of (unique, seenAnchors, seenSignatures) \<Rightarrow>
        if anchorKey g \<in> seenAnchors then st
        else let sig = ComputeCanonicalSignature g
             in if sig \<in> seenSignatures then st
                else (unique @ [g], insert (anchorKey g) seenAnchors, insert sig seenSignatures))"

definition Deduplicate :: "ComputeGraph list \<Rightarrow> ComputeGraph list" where
  "Deduplicate graphs = fst (fold Deduplicate_step graphs ([], {}, {}))"

lemma Deduplicate_step_keeps_all:
  "distinct (map anchorKey gs) \<Longrightarrow> distinct (map ComputeCanonicalSignature gs) \<Longrightarrow>
   anchorKey ` set gs \<inter> A = {} \<Longrightarrow> ComputeCanonicalSignature ` set gs \<inter> S = {} \<Longrightarrow>
   fold Deduplicate_step gs (u, A, S)
     = (u @ gs, A \<union> anchorKey ` set gs, S \<union> ComputeCanonicalSignature ` set gs)"
proof (induction gs arbitrary: u A S)
  case Nil
  then show ?case by simp
next
  case (Cons g gs)
  from Cons.prems have g: "anchorKey g \<notin> A" "ComputeCanonicalSignature g \<notin> S" by auto
  then have step: "Deduplicate_step g (u, A, S)
      = (u @ [g], insert (anchorKey g) A, insert (ComputeCanonicalSignature g) S)"
    by (simp add: Deduplicate_step_def Let_def)
  from Cons.prems have d: "distinct (map anchorKey gs)" "distinct (map ComputeCanonicalSignature gs)"
    "anchorKey ` set gs \<inter> insert (anchorKey g) A = {}"
    "ComputeCanonicalSignature ` set gs \<inter> insert (ComputeCanonicalSignature g) S = {}"
    by auto
  show ?case
    using Cons.IH [OF d, of "u @ [g]"] by (simp add: step)
qed

lemma Deduplicate_step_survivors:
  "\<exists>kept. fold Deduplicate_step gs (u, A, S)
            = (u @ kept, A \<union> anchorKey ` set kept, S \<union> ComputeCanonicalSignature ` set kept)
        \<and> distinct (map anchorKey kept) \<and> distinct (map ComputeCanonicalSignature kept)
        \<and> anchorKey ` set kept \<inter> A = {} \<and> ComputeCanonicalSignature ` set kept \<inter> S = {}
        \<and> set kept \<subseteq> set gs"
proof (induction gs arbitrary: u A S)
  case Nil
  show ?case by (intro exI [of _ "[]"]) simp
next
  case (Cons g gs)
  show ?case
  proof (cases "anchorKey g \<in> A \<or> ComputeCanonicalSignature g \<in> S")
    case True
    then have "Deduplicate_step g (u, A, S) = (u, A, S)"
      by (auto simp: Deduplicate_step_def Let_def)
    with Cons.IH [of u A S] show ?thesis by auto
  next
    case False
    then have step: "Deduplicate_step g (u, A, S)
        = (u @ [g], insert (anchorKey g) A, insert (ComputeCanonicalSignature g) S)"
      by (simp add: Deduplicate_step_def Let_def)
    from Cons.IH [of "u @ [g]" "insert (anchorKey g) A" "insert (ComputeCanonicalSignature g) S"]
    obtain kept where k:
      "fold Deduplicate_step gs (u @ [g], insert (anchorKey g) A, insert (ComputeCanonicalSignature g) S)
         = ((u @ [g]) @ kept, insert (anchorKey g) A \<union> anchorKey ` set kept,
            insert (ComputeCanonicalSignature g) S \<union> ComputeCanonicalSignature ` set kept)"
      "distinct (map anchorKey kept)" "distinct (map ComputeCanonicalSignature kept)"
      "anchorKey ` set kept \<inter> insert (anchorKey g) A = {}"
      "ComputeCanonicalSignature ` set kept \<inter> insert (ComputeCanonicalSignature g) S = {}"
      "set kept \<subseteq> set gs"
      by blast
    show ?thesis
      using k False by (intro exI [of _ "g # kept"]) (auto simp: step)
  qed
qed

text \<open>
  C7. \<^verbatim>\<open>Deduplicate\<close> is idempotent: the graphs that survive one run have pairwise distinct
  anchor keys (hence pairwise distinct pairs of \<^verbatim>\<open>anchor_func\<close> and \<^verbatim>\<open>anchor_line\<close>) and
  pairwise distinct canonical signatures, so a second run keeps every one of them, in the same
  order.
\<close>

theorem Deduplicate_idempotent:
  "Deduplicate (Deduplicate graphs) = Deduplicate graphs
   \<and> distinct (map anchorKey (Deduplicate graphs))
   \<and> distinct (map (\<lambda>g. (GetProperty g ''anchor_func'', GetProperty g ''anchor_line''))
                 (Deduplicate graphs))
   \<and> distinct (map ComputeCanonicalSignature (Deduplicate graphs))"
proof -
  from Deduplicate_step_survivors [of graphs "[]" "{}" "{}"]
  obtain kept where k: "Deduplicate graphs = kept"
    "distinct (map anchorKey kept)" "distinct (map ComputeCanonicalSignature kept)"
    by (auto simp: Deduplicate_def)
  have "Deduplicate kept = kept"
    using Deduplicate_step_keeps_all [OF k(2,3), of "{}" "{}" "[]"]
    by (simp add: Deduplicate_def)
  moreover have "distinct (map (\<lambda>g. (GetProperty g ''anchor_func'', GetProperty g ''anchor_line'')) kept)"
  proof -
    have "inj_on anchorKey (set kept)" using k(2) by (simp add: distinct_map)
    then have "inj_on (\<lambda>g. (GetProperty g ''anchor_func'', GetProperty g ''anchor_line'')) (set kept)"
      by (auto simp: inj_on_def anchorKey_def)
    moreover have "distinct kept" using k(2) by (simp add: distinct_map)
    ultimately show ?thesis by (simp add: distinct_map)
  qed
  ultimately show ?thesis using k by simp
qed

section \<open>Correctness of the topological sort on acyclic graphs\<close>










subsection \<open>The inner loop\<close>



subsection \<open>What well-formedness gives\<close>










subsection \<open>The invariant of the outer loop\<close>






subsection \<open>Initial state and the whole loop\<close>








subsection \<open>The result\<close>

















section \<open>Loop-variable initializer: ConnectLoopVarInitToLoop\<close>
















subsection \<open>Facts about the edge map\<close>

















subsection \<open>The outgoing DataFlow edges of the initializer\<close>







section \<open>Backward trace: modification scan, kill filtering and nearest definition\<close>






























subsection \<open>What survives the kill filter\<close>








subsection \<open>What the nearest-definition scan picks\<close>







subsection \<open>The predecessors of a use\<close>













end
